theory Spec2Isabelle
  imports
    Main
    "HOL-Library.Char_ord"
    "HOL-Library.List_Lexorder"
    "HOL-Library.Sublist"
    "HOL-Library.AList"
begin

section \<open>Data model of go-chef (main.go)\<close>

text \<open>
  Go strings are byte sequences and are compared bytewise; they are modelled as
  \<^typ>\<open>string\<close> with the lexicographic order of \<open>List_Lexorder\<close> over the byte order
  of \<open>Char_ord\<close>.
\<close>

record importGroup =
  BuildConstraints :: string
  Packages :: "string list"

record recipe =
  ImportGroups :: "importGroup list"
  GoMod :: string
  GoSum :: string

text \<open>
  Every error return of \<open>runCook\<close>, \<open>runPrepare\<close> and \<open>addFile\<close> is a constructor.
  \<open>Joined\<close> is the value of \<open>errors.Join\<close> with at least one non-nil argument;
  \<open>NilDeref\<close> is the panic of \<open>mf.Module.Mod.Path\<close> on a go.mod without module line.
\<close>

datatype error =
    ReadError string
  | UnmarshalError string
  | WriteError string
  | BuildError
  | RemoveError string
  | Joined "error list"
  | ModParseError
  | NilDeref
  | DirError string
  | ParseError string
  | UnquoteError string
  | WalkError error

text \<open>The part of \<open>ast.File\<close> that the program reads: the import path literals
  (\<open>spec.Path.Value\<close>, still quoted) and the comment groups with the text of each comment.\<close>

record astFile =
  Imports :: "string list"
  Comments :: "string list list"

text \<open>The result of \<open>modfile.Parse\<close>: the \<open>Module\<close> field is nil or holds the module path.\<close>

datatype modFile = ModFile "string option"

text \<open>
  Library and toolchain calls whose code is outside the repository are parameters of the
  model: \<open>json.Unmarshal\<close> and \<open>json.Marshal\<close> on a recipe, the \<open>%q\<close> verb of
  \<open>fmt.Sprintf\<close>, \<open>strconv.Unquote\<close>, \<open>modfile.Parse\<close>, and the exit status of the
  \<open>go\<close> command on given arguments in a given directory content (True is exit status 0).
\<close>

record extern =
  jsonUnmarshal :: "string \<Rightarrow> recipe option"
  jsonMarshal :: "recipe \<Rightarrow> string"
  fmtQuote :: "string \<Rightarrow> string"
  strconvUnquote :: "string \<Rightarrow> string option"
  modfileParse :: "string \<Rightarrow> modFile option"
  goCommand :: "string list \<Rightarrow> (string \<Rightarrow> string option) \<Rightarrow> bool"

text \<open>
  The working directory: the content of each regular file by name, and the names on which
  \<open>os.WriteFile\<close> respectively \<open>os.Remove\<close> fail (permissions, a directory in the way).
\<close>

record world =
  files :: "string \<Rightarrow> string option"
  wdeny :: "string \<Rightarrow> bool"
  rmdeny :: "string \<Rightarrow> bool"

definition osReadFile :: "world \<Rightarrow> string \<Rightarrow> error + string" where
  "osReadFile w p = (case files w p of None \<Rightarrow> Inl (ReadError p) | Some c \<Rightarrow> Inr c)"

definition osWriteFile :: "world \<Rightarrow> string \<Rightarrow> string \<Rightarrow> error + world" where
  "osWriteFile w p c =
     (if wdeny w p then Inl (WriteError p) else Inr (w\<lparr>files := (files w)(p \<mapsto> c)\<rparr>))"

text \<open>\<open>os.Remove\<close> fails on a name that does not exist or cannot be removed, and leaves
  the directory as it was.\<close>

definition osRemove :: "world \<Rightarrow> string \<Rightarrow> world \<times> error option" where
  "osRemove w p =
     (if files w p = None \<or> rmdeny w p then (w, Some (RemoveError p))
      else (w\<lparr>files := (files w)(p := None)\<rparr>, None))"

text \<open>\<open>errors.Join\<close>: nil values are discarded; the result is nil when nothing is left.\<close>

definition errorsJoin :: "error option list \<Rightarrow> error option" where
  "errorsJoin errs =
     (let es = List.map_filter (\<lambda>e. e) errs in if es = [] then None else Some (Joined es))"

section \<open>Prepare: the imports builder\<close>

text \<open>
  \<open>importsBuilder.imports\<close> is a Go map from build constraints to a set of packages. It is
  an association list with distinct keys whose order stands for the (unspecified) order
  in which \<open>range\<close> iterates over the map; a set of packages is a list without
  duplicates, again in iteration order.
\<close>

record importsBuilder =
  modPrefix :: string
  imports' :: "(string \<times> string list) list"

definition newImportsBuilder :: "string \<Rightarrow> importsBuilder" where
  "newImportsBuilder modName = \<lparr>modPrefix = modName @ ''/'', imports' = []\<rparr>"

definition buildPrefix :: string where
  "buildPrefix = ''//go:build ''"

definition trimPrefix :: "string \<Rightarrow> string \<Rightarrow> string" where
  "trimPrefix s p = (if prefix p s then drop (length p) s else s)"

text \<open>The inner loop of \<open>extractBuildConstraints\<close> over the comments of one group, and the
  outer loop over the groups; \<open>Some\<close> is the \<open>return\<close> inside the loops.\<close>

fun scanComments :: "string list \<Rightarrow> string option" where
  "scanComments [] = None"
| "scanComments (c # cs) =
     (if prefix buildPrefix c then Some (trimPrefix c buildPrefix) else scanComments cs)"

fun scanGroups :: "string list list \<Rightarrow> string option" where
  "scanGroups [] = None"
| "scanGroups (cg # cgs) =
     (case scanComments cg of Some r \<Rightarrow> Some r | None \<Rightarrow> scanGroups cgs)"

definition extractBuildConstraints :: "astFile \<Rightarrow> string" where
  "extractBuildConstraints file =
     (case scanGroups (Comments file) of Some r \<Rightarrow> r | None \<Rightarrow> [])"

text \<open>The loop over \<open>file.Imports\<close> in \<open>addFile\<close>; \<open>ig\<close> is the set being filled.\<close>

fun addImports ::
  "(string \<Rightarrow> string option) \<Rightarrow> string \<Rightarrow> string list \<Rightarrow> string list \<Rightarrow> error + string list"
where
  "addImports unq pre [] ig = Inr ig"
| "addImports unq pre (v # vs) ig =
     (case unq v of
        None \<Rightarrow> Inl (UnquoteError v)
      | Some pkg \<Rightarrow>
          addImports unq pre vs (if \<not> prefix pre pkg then List.insert pkg ig else ig))"

text \<open>
  \<open>addFile\<close>; the last argument is what \<open>parser.ParseFile\<close> returns for the path
  (\<open>None\<close>: a parse error). On an error the builder is dropped by the caller, so the
  model returns the error alone.
\<close>

definition addFile ::
  "extern \<Rightarrow> importsBuilder \<Rightarrow> string \<Rightarrow> astFile option \<Rightarrow> error + importsBuilder"
where
  "addFile x b filepath parsed =
     (case parsed of
        None \<Rightarrow> Inl (ParseError filepath)
      | Some file \<Rightarrow>
          if length (Imports file) = 0 then Inr b
          else
            let buildConstraints = extractBuildConstraints file;
                ig = (case map_of (imports' b) buildConstraints of None \<Rightarrow> [] | Some s \<Rightarrow> s)
            in (case addImports (strconvUnquote x) (modPrefix b) (Imports file) ig of
                  Inl e \<Rightarrow> Inl e
                | Inr ig' \<Rightarrow>
                    Inr (b\<lparr>imports' := AList.update buildConstraints ig' (imports' b)\<rparr>)))"

text \<open>
  \<open>slices.SortFunc\<close> is modelled as insertion sort driven by the comparison function
  (an element is placed before the first element with which its comparison is negative);
  \<open>slices.Sort\<close> on strings is \<^const>\<open>sort\<close>.
\<close>

fun insertCmp :: "('a \<Rightarrow> 'a \<Rightarrow> int) \<Rightarrow> 'a \<Rightarrow> 'a list \<Rightarrow> 'a list" where
  "insertCmp cmp x [] = [x]"
| "insertCmp cmp x (y # ys) = (if cmp x y < 0 then x # y # ys else y # insertCmp cmp x ys)"

definition sortFunc :: "('a \<Rightarrow> 'a \<Rightarrow> int) \<Rightarrow> 'a list \<Rightarrow> 'a list" where
  "sortFunc cmp xs = foldr (insertCmp cmp) xs []"

definition groupCmp :: "importGroup \<Rightarrow> importGroup \<Rightarrow> int" where
  "groupCmp gx gy = (if BuildConstraints gx < BuildConstraints gy then - 1 else 1)"

definition mkGroup :: "string \<times> string list \<Rightarrow> importGroup" where
  "mkGroup kv = \<lparr>BuildConstraints = fst kv, Packages = sort (snd kv)\<rparr>"

definition importGroups :: "importsBuilder \<Rightarrow> importGroup list" where
  "importGroups b = sortFunc groupCmp (map mkGroup (imports' b))"

section \<open>Prepare: walking the tree\<close>

text \<open>
  What \<open>fs.WalkDir\<close> finds under the working directory: a file with its name and the
  result of parsing it, a directory with its name and entries in the order visited, or a
  directory that cannot be read. The parse result of a file is looked at only when the
  file is handed to \<open>addFile\<close>.
\<close>

datatype entry =
    File string "astFile option"
  | Dir string "entry list"
  | BadDir string

fun entryName :: "entry \<Rightarrow> string" where
  "entryName (File n p) = n"
| "entryName (Dir n es) = n"
| "entryName (BadDir n) = n"

definition hidden :: "string \<Rightarrow> bool" where
  "hidden filename \<longleftrightarrow> prefix ''.'' filename \<and> filename \<noteq> ''.''"

definition pathJoin :: "string \<Rightarrow> string \<Rightarrow> string" where
  "pathJoin dir name = (if dir = ''.'' then name else dir @ ''/'' @ name)"

text \<open>
  \<open>fs.WalkDir\<close> with the callback of \<open>runPrepare\<close>: a hidden directory answers
  \<open>fs.SkipDir\<close> and is not entered, a hidden file is passed over, a file ending in ".go"
  goes to \<open>addFile\<close>, and the error of reading a directory is returned as it is.
\<close>

fun walkDir :: "extern \<Rightarrow> string \<Rightarrow> entry \<Rightarrow> importsBuilder \<Rightarrow> error + importsBuilder"
and walkEntries :: "extern \<Rightarrow> string \<Rightarrow> entry list \<Rightarrow> importsBuilder \<Rightarrow> error + importsBuilder"
where
  "walkDir x path (File filename parsed) b =
     (if hidden filename then Inr b
      else if suffix ''.go'' filename then addFile x b path parsed
      else Inr b)"
| "walkDir x path (Dir filename es) b =
     (if hidden filename then Inr b else walkEntries x path es b)"
| "walkDir x path (BadDir filename) b =
     (if hidden filename then Inr b else Inl (DirError path))"
| "walkEntries x dir [] b = Inr b"
| "walkEntries x dir (e # es) b =
     (case walkDir x (pathJoin dir (entryName e)) e b of
        Inl err \<Rightarrow> Inl err
      | Inr b' \<Rightarrow> walkEntries x dir es b')"

text \<open>\<open>runPrepare\<close> up to the recipe value, and then with the marshalling and the write.
  The tree is the third argument; the root is visited under the path ".".\<close>

definition prepareRecipe :: "extern \<Rightarrow> world \<Rightarrow> entry \<Rightarrow> error + recipe" where
  "prepareRecipe x w tree =
     (case osReadFile w ''go.mod'' of
        Inl e \<Rightarrow> Inl e
      | Inr modContents \<Rightarrow>
          (case modfileParse x modContents of
             None \<Rightarrow> Inl ModParseError
           | Some (ModFile None) \<Rightarrow> Inl NilDeref
           | Some (ModFile (Some moduleName)) \<Rightarrow>
               (case osReadFile w ''go.sum'' of
                  Inl e \<Rightarrow> Inl e
                | Inr sumContents \<Rightarrow>
                    (case walkDir x ''.'' tree (newImportsBuilder moduleName) of
                       Inl e \<Rightarrow> Inl (WalkError e)
                     | Inr builder \<Rightarrow>
                         Inr \<lparr>ImportGroups = importGroups builder,
                              GoMod = modContents,
                              GoSum = sumContents\<rparr>))))"

definition runPrepare :: "extern \<Rightarrow> string \<Rightarrow> world \<Rightarrow> entry \<Rightarrow> world \<times> error option" where
  "runPrepare x recipePath w tree =
     (case prepareRecipe x w tree of
        Inl e \<Rightarrow> (w, Some e)
      | Inr r \<Rightarrow>
          (case osWriteFile w recipePath (jsonMarshal x r) of
             Inl e \<Rightarrow> (w, Some e)
           | Inr w' \<Rightarrow> (w', None)))"

section \<open>Cook\<close>

definition nl :: string where
  "nl = [CHR 0x0A]"

definition tab :: string where
  "tab = [CHR 0x09]"

text \<open>The \<open>%d\<close> verb on a loop index, which is never negative.\<close>

definition digit :: "nat \<Rightarrow> char" where
  "digit d = char_of (48 + d)"

fun showNat :: "nat \<Rightarrow> string" where
  "showNat n = (if n < 10 then [digit n] else showNat (n div 10) @ [digit (n mod 10)])"

declare showNat.simps [simp del]

definition goFileName :: "nat \<Rightarrow> string" where
  "goFileName i = (if i = 0 then ''main.go'' else ''main'' @ showNat i @ ''.go'')"

definition entryPoint :: string where
  "entryPoint = nl @ ''func main() {}'' @ nl"

text \<open>The content of the file generated for group \<open>g\<close> at index \<open>i\<close>, built by the
  same appends as in the loop body of \<open>runCook\<close>.\<close>

definition mainContent :: "extern \<Rightarrow> nat \<Rightarrow> importGroup \<Rightarrow> string" where
  "mainContent x i g =
     (let c0 = (if BuildConstraints g \<noteq> [] then ''//go:build '' @ BuildConstraints g @ nl @ nl
                else []);
          c1 = c0 @ ''package main'' @ nl @ nl @ ''import ('' @ nl;
          c2 = foldl (\<lambda>mc imp. mc @ tab @ ''_ '' @ fmtQuote x imp @ nl) c1 (Packages g);
          c3 = c2 @ '')'' @ nl
      in if i = 0 then c3 @ entryPoint else c3)"

text \<open>The loop over \<open>r.ImportGroups\<close>: the index, the groups still to do, the names
  collected in \<open>goFiles\<close>, the directory. A failed write returns at once, with the
  directory as it is by then.\<close>

fun writeGroups ::
  "extern \<Rightarrow> nat \<Rightarrow> importGroup list \<Rightarrow> string list \<Rightarrow> world \<Rightarrow> world \<times> string list \<times> error option"
where
  "writeGroups x i [] goFiles w = (w, goFiles, None)"
| "writeGroups x i (g # gs) goFiles w =
     (let filename = goFileName i;
          goFiles' = goFiles @ [filename]
      in (case osWriteFile w filename (mainContent x i g) of
            Inl e \<Rightarrow> (w, goFiles', Some e)
          | Inr w' \<Rightarrow> writeGroups x (i + 1) gs goFiles' w'))"

text \<open>The cleanup loop: every name is removed in turn and every result, nil or not, is
  appended to \<open>cleanupErrs\<close>.\<close>

fun cleanup :: "world \<Rightarrow> string list \<Rightarrow> error option list \<Rightarrow> world \<times> error option list" where
  "cleanup w [] cleanupErrs = (w, cleanupErrs)"
| "cleanup w (filename # rest) cleanupErrs =
     (case osRemove w filename of (w', e) \<Rightarrow> cleanup w' rest (cleanupErrs @ [e]))"

definition buildArgs :: "string \<Rightarrow> string list" where
  "buildArgs tags =
     [''build'', ''-o'', ''/dev/null''] @ (if tags \<noteq> [] then [''-tags'', tags] else []) @ [''.'']"

text \<open>
  \<open>runCook\<close>: the directory it leaves behind and the error it returns (\<open>None\<close> is nil).
  The build writes its output to /dev/null and is taken not to change the directory.
\<close>

definition runCook :: "extern \<Rightarrow> string \<Rightarrow> string \<Rightarrow> world \<Rightarrow> world \<times> error option" where
  "runCook x recipePath tags w =
     (case osReadFile w recipePath of
        Inl e \<Rightarrow> (w, Some e)
      | Inr recipeJSON \<Rightarrow>
          (case jsonUnmarshal x recipeJSON of
             None \<Rightarrow> (w, Some (UnmarshalError recipePath))
           | Some r \<Rightarrow>
               (case osWriteFile w ''go.mod'' (GoMod r) of
                  Inl e \<Rightarrow> (w, Some e)
                | Inr w1 \<Rightarrow>
                    (case osWriteFile w1 ''go.sum'' (GoSum r) of
                       Inl e \<Rightarrow> (w1, Some e)
                     | Inr w2 \<Rightarrow>
                         (case writeGroups x 0 (ImportGroups r) [] w2 of
                            (w3, goFiles, Some e) \<Rightarrow> (w3, Some e)
                          | (w3, goFiles, None) \<Rightarrow>
                              if \<not> goCommand x (buildArgs tags) (files w3)
                              then (w3, Some BuildError)
                              else (case cleanup w3 goFiles [] of
                                      (w4, cleanupErrs) \<Rightarrow> (w4, errorsJoin cleanupErrs)))))))"

section \<open>Vocabulary of the statements\<close>

text \<open>The candidate files in visiting order, each with its path and its parse result:
  what the walk hands to \<open>addFile\<close>.\<close>

fun visited :: "string \<Rightarrow> entry \<Rightarrow> (string \<times> astFile option) list"
and visitedList :: "string \<Rightarrow> entry list \<Rightarrow> (string \<times> astFile option) list"
where
  "visited path (File filename parsed) =
     (if \<not> hidden filename \<and> suffix ''.go'' filename then [(path, parsed)] else [])"
| "visited path (Dir filename es) = (if hidden filename then [] else visitedList path es)"
| "visited path (BadDir filename) = []"
| "visitedList dir [] = []"
| "visitedList dir (e # es) = visited (pathJoin dir (entryName e)) e @ visitedList dir es"

text \<open>The map held by a builder, read as a set of keys and a set of (key, package)
  pairs, and the representation invariant of the association list.\<close>

definition keysB :: "importsBuilder \<Rightarrow> string set" where
  "keysB b = dom (map_of (imports' b))"

definition relB :: "importsBuilder \<Rightarrow> (string \<times> string) set" where
  "relB b = {(k, p). \<exists>ps. map_of (imports' b) k = Some ps \<and> p \<in> set ps}"

definition invB :: "importsBuilder \<Rightarrow> bool" where
  "invB b \<longleftrightarrow> distinct (map fst (imports' b)) \<and>
     (\<forall>k ps. map_of (imports' b) k = Some ps \<longrightarrow> distinct ps)"

text \<open>What a list of candidate files contributes: the constraint expressions of the files
  with at least one import, and the (expression, package) pairs of the imports that do
  not start with the module prefix.\<close>

definition fileKeys :: "(string \<times> astFile option) list \<Rightarrow> string set" where
  "fileKeys vs = {extractBuildConstraints f | p f. (p, Some f) \<in> set vs \<and> Imports f \<noteq> []}"

definition filePkgs :: "extern \<Rightarrow> string \<Rightarrow> (string \<times> astFile option) list \<Rightarrow> (string \<times> string) set" where
  "filePkgs x pre vs =
     {(extractBuildConstraints f, pkg) | p f v pkg.
        (p, Some f) \<in> set vs \<and> v \<in> set (Imports f) \<and> strconvUnquote x v = Some pkg \<and> \<not> prefix pre pkg}"

definition groupPairs :: "importGroup list \<Rightarrow> (string \<times> string) set" where
  "groupPairs gs = {(BuildConstraints g, p) | g p. g \<in> set gs \<and> p \<in> set (Packages g)}"

text \<open>The (file, ordered import-path list, constraint expression) tuple of a candidate
  file; the import paths are the results of unquoting.\<close>

fun fileTuple :: "extern \<Rightarrow> string \<times> astFile option \<Rightarrow> (string \<times> string option list \<times> string) option" where
  "fileTuple x (path, None) = None"
| "fileTuple x (path, Some f) =
     Some (path, map (strconvUnquote x) (Imports f), extractBuildConstraints f)"

text \<open>The two variable parts of a generated file.\<close>

definition buildHeader :: "importGroup \<Rightarrow> string" where
  "buildHeader g =
     (if BuildConstraints g \<noteq> [] then ''//go:build '' @ BuildConstraints g @ nl @ nl else [])"

definition importLine :: "extern \<Rightarrow> string \<Rightarrow> string" where
  "importLine x imp = tab @ ''_ '' @ fmtQuote x imp @ nl"

section \<open>Stand-ins for the library calls, and an example project\<close>

text \<open>
  Concrete values for the parameters of \<^typ>\<open>extern\<close>, used where a statement is
  evaluated on an input. They agree with the Go library on the inputs used here: strings
  of printable ASCII without quote or backslash are quoted by surrounding them with double
  quotes, both by \<open>%q\<close> and in JSON; a nil slice is marshalled as \<open>null\<close>; an empty
  \<open>buildConstraints\<close> is omitted; the module path is what follows \<open>module\<close> on the
  first line of go.mod. \<open>jsonUnmarshal\<close> inverts the marshalling of the one recipe given.
\<close>

definition plainQuote :: "string \<Rightarrow> string" where
  "plainQuote s = [CHR 0x22] @ s @ [CHR 0x22]"

definition plainUnquote :: "string \<Rightarrow> string option" where
  "plainUnquote v =
     (case v of
        [] \<Rightarrow> None
      | c # cs \<Rightarrow>
          if c = CHR 0x22 \<and> cs \<noteq> [] \<and> last cs = CHR 0x22 \<and>
             CHR 0x22 \<notin> set (butlast cs) \<and> CHR 0x5C \<notin> set (butlast cs)
          then Some (butlast cs) else None)"

definition plainModfile :: "string \<Rightarrow> modFile option" where
  "plainModfile s =
     (if prefix ''module '' s then Some (ModFile (Some (takeWhile (\<lambda>c. c \<noteq> CHR 0x0A) (drop 7 s))))
      else None)"

fun commaSep :: "string list \<Rightarrow> string" where
  "commaSep [] = []"
| "commaSep [s] = s"
| "commaSep (s # t # ts) = s @ '','' @ commaSep (t # ts)"

definition jsonArray :: "string list \<Rightarrow> string" where
  "jsonArray xs = (if xs = [] then ''null'' else ''['' @ commaSep xs @ '']'')"

definition jsonGroup :: "importGroup \<Rightarrow> string" where
  \<open>jsonGroup g =
     ''{'' @ (if BuildConstraints g \<noteq> [] then ''"buildConstraints":'' @ plainQuote (BuildConstraints g) @ '',''
              else []) @
     ''"packages":'' @ jsonArray (map plainQuote (Packages g)) @ ''}''\<close>

definition plainMarshal :: "recipe \<Rightarrow> string" where
  \<open>plainMarshal r =
     ''{"importGroups":'' @ jsonArray (map jsonGroup (ImportGroups r)) @
     '',"go.mod":'' @ plainQuote (GoMod r) @ '',"go.sum":'' @ plainQuote (GoSum r) @ ''}''\<close>

definition testExtern :: "recipe \<Rightarrow> (string list \<Rightarrow> (string \<Rightarrow> string option) \<Rightarrow> bool) \<Rightarrow> extern" where
  "testExtern r go =
     \<lparr>jsonUnmarshal = (\<lambda>s. if s = plainMarshal r then Some r else None),
      jsonMarshal = plainMarshal,
      fmtQuote = plainQuote,
      strconvUnquote = plainUnquote,
      modfileParse = plainModfile,
      goCommand = go\<rparr>"

text \<open>Exit statuses of the build and removal permissions used in the examples. With
  \<open>goNeedsMain\<close> the build fails when the directory has no \<open>main.go\<close>, as
  \<open>go build\<close> does in a directory without Go source files.\<close>

definition goSucceeds :: "string list \<Rightarrow> (string \<Rightarrow> string option) \<Rightarrow> bool" where
  "goSucceeds args dir = True"

definition goFails :: "string list \<Rightarrow> (string \<Rightarrow> string option) \<Rightarrow> bool" where
  "goFails args dir = False"

definition goNeedsMain :: "string list \<Rightarrow> (string \<Rightarrow> string option) \<Rightarrow> bool" where
  "goNeedsMain args dir = (dir ''main.go'' \<noteq> None)"

definition noDeny :: "string \<Rightarrow> bool" where
  "noDeny p = False"

definition denyMain1 :: "string \<Rightarrow> bool" where
  "denyMain1 p = (p = ''main1.go'')"

text \<open>
  The example of the specification: module \<open>example.com/app\<close>, an unconstrained file
  importing \<open>fmt\<close> and a package of the module itself, a file constrained to \<open>linux\<close>
  importing \<open>golang.org/x/sys/unix\<close>; in addition a file constrained to \<open>windows\<close>
  behind a copyright comment that imports only from the module, a file without imports,
  and a hidden directory with a file that does not parse.
\<close>

definition fileA :: astFile where
  \<open>fileA = \<lparr>Imports = [''"fmt"'', ''"example.com/app/internal/util"''], Comments = []\<rparr>\<close>

definition fileB :: astFile where
  \<open>fileB = \<lparr>Imports = [''"golang.org/x/sys/unix"''], Comments = [[''//go:build linux'']]\<rparr>\<close>

definition fileC :: astFile where
  \<open>fileC = \<lparr>Imports = [''"example.com/app/internal/util"''],
             Comments = [[''// Copyright 2024''], [''//go:build windows'']]\<rparr>\<close>

definition fileU :: astFile where
  "fileU = \<lparr>Imports = [], Comments = [[''// Package util'']]\<rparr>"

definition exampleTree :: entry where
  "exampleTree =
     Dir ''.''
       [File ''a.go'' (Some fileA),
        File ''b_linux.go'' (Some fileB),
        File ''c_windows.go'' (Some fileC),
        Dir ''internal'' [Dir ''util'' [File ''util.go'' (Some fileU)]],
        Dir ''.cache'' [File ''broken.go'' None],
        File ''go.mod'' None]"

definition reorderedTree :: entry where
  "reorderedTree =
     Dir ''.''
       [Dir ''internal'' [Dir ''util'' [File ''util.go'' (Some (fileU\<lparr>Comments := []\<rparr>))]],
        File ''c_windows.go'' (Some fileC),
        File ''README.md'' None,
        File ''b_linux.go'' (Some fileB),
        File ''a.go'' (Some (fileA\<lparr>Comments := [[''// edited'']]\<rparr>))]"

definition brokenTree :: entry where
  "brokenTree = Dir ''.'' [File ''a.go'' (Some fileA), Dir ''cmd'' [File ''bad.go'' None]]"

definition exampleGroups :: "importGroup list" where
  "exampleGroups =
     [\<lparr>BuildConstraints = [], Packages = [''fmt'']\<rparr>,
      \<lparr>BuildConstraints = ''linux'', Packages = [''golang.org/x/sys/unix'']\<rparr>,
      \<lparr>BuildConstraints = ''windows'', Packages = []\<rparr>]"

definition exampleRecipe :: recipe where
  "exampleRecipe =
     \<lparr>ImportGroups = exampleGroups,
      GoMod = ''module example.com/app'',
      GoSum = ''golang.org/x/sys v0.1.0 h1:abc=''\<rparr>"

definition emptyRecipe :: recipe where
  "emptyRecipe = \<lparr>ImportGroups = [], GoMod = ''module example.com/app'', GoSum = []\<rparr>"

definition prepWorld :: "string \<Rightarrow> world" where
  "prepWorld sumText =
     \<lparr>files = [''go.mod'' \<mapsto> ''module example.com/app'', ''go.sum'' \<mapsto> sumText],
      wdeny = (\<lambda>p. False),
      rmdeny = (\<lambda>p. False)\<rparr>"

definition cookWorld :: "recipe \<Rightarrow> (string \<Rightarrow> bool) \<Rightarrow> world" where
  "cookWorld r deny =
     \<lparr>files = [''recipe.json'' \<mapsto> plainMarshal r], wdeny = (\<lambda>p. False), rmdeny = deny\<rparr>"

section \<open>Properties\<close>

lemma scanComments_find:
  "scanComments cs = map_option (drop (length buildPrefix)) (find (prefix buildPrefix) cs)"
  by (induction cs) (simp_all add: trimPrefix_def)

lemma find_append_opt:
  "find P (xs @ ys) = (case find P xs of Some r \<Rightarrow> Some r | None \<Rightarrow> find P ys)"
  by (induction xs) simp_all

lemma length_buildPrefix: "length buildPrefix = 11"
  by (simp add: buildPrefix_def)

lemma scanGroups_find:
  "scanGroups cgs = map_option (drop (length buildPrefix)) (find (prefix buildPrefix) (concat cgs))"
  by (induction cgs) (auto simp: scanComments_find find_append_opt split: option.splits)

text \<open>
  C6 (as the code has it). The constraint expression of a file is the text after the
  prefix \<open>//go:build \<close> of the first comment that starts with this prefix, searching
  every comment group of \<open>file.Comments\<close> in source order and not only the first
  group; it is the empty string when no comment of any group matches. Later matching
  comments are ignored.
\<close>

theorem extractBuildConstraints_first_match:
  "extractBuildConstraints file =
     (case find (prefix ''//go:build '') (concat (Comments file)) of
        None \<Rightarrow> []
      | Some c \<Rightarrow> drop 11 c)"
  unfolding buildPrefix_def [symmetric]
  by (simp add: extractBuildConstraints_def scanGroups_find length_buildPrefix split: option.splits)

text \<open>
  A file whose first comment group is a copyright line and whose second group is the
  constraint: the first group has no matching line, and the expression is still
  \<open>linux\<close>.
\<close>

theorem extractBuildConstraints_later_group:
  \<open>extractBuildConstraints
      \<lparr>Imports = [''"fmt"''], Comments = [[''// Copyright 2024''], [''//go:build linux'']]\<rparr> = ''linux''
   \<and> find (prefix ''//go:build '') (hd [[''// Copyright 2024''], [''//go:build linux'']]) = None\<close>
  by (simp add: extractBuildConstraints_def buildPrefix_def trimPrefix_def)

lemma walk_parse_error:
  "(p, None) \<in> set (visited path e) \<Longrightarrow> \<exists>err. walkDir x path e b = Inl err"
  "(p, None) \<in> set (visitedList dir es) \<Longrightarrow> \<exists>err. walkEntries x dir es b = Inl err"
proof (induction x path e b and x dir es b rule: walkDir_walkEntries.induct)
  case (1 x path filename parsed b)
  then show ?case by (auto simp: addFile_def split: if_splits)
next
  case (5 x dir e es b)
  then show ?case by (auto split: sum.splits)
qed (auto split: if_splits)

lemma fileKeys_append: "fileKeys (vs @ ws) = fileKeys vs \<union> fileKeys ws"
  by (auto simp: fileKeys_def)

lemma filePkgs_append: "filePkgs x pre (vs @ ws) = filePkgs x pre vs \<union> filePkgs x pre ws"
  by (auto simp: filePkgs_def)

lemma addImports_set:
  "addImports unq pre vs ig = Inr ig' \<Longrightarrow>
   set ig' = set ig \<union> {pkg. \<exists>v\<in>set vs. unq v = Some pkg \<and> \<not> prefix pre pkg}"
  by (induction vs arbitrary: ig) (auto split: option.splits if_splits)

lemma addImports_distinct:
  "addImports unq pre vs ig = Inr ig' \<Longrightarrow> distinct ig \<Longrightarrow> distinct ig'"
  by (induction vs arbitrary: ig) (auto split: option.splits if_splits)

lemma addFile_skip: "Imports f = [] \<Longrightarrow> addFile x b path (Some f) = Inr b"
  by (simp add: addFile_def)

lemma addFile_effect:
  assumes "addFile x b path (Some f) = Inr b'" and "Imports f \<noteq> []"
  shows "modPrefix b' = modPrefix b"
    and "keysB b' = insert (extractBuildConstraints f) (keysB b)"
    and "relB b' = relB b \<union>
           {(extractBuildConstraints f, pkg) | v pkg.
              v \<in> set (Imports f) \<and> strconvUnquote x v = Some pkg \<and> \<not> prefix (modPrefix b) pkg}"
    and "invB b \<Longrightarrow> invB b'"
proof -
  let ?c = "extractBuildConstraints f"
  let ?ig = "case map_of (imports' b) ?c of None \<Rightarrow> [] | Some s \<Rightarrow> s"
  from assms obtain ig' where
    ai: "addImports (strconvUnquote x) (modPrefix b) (Imports f) ?ig = Inr ig'" and
    b': "b' = b\<lparr>imports' := AList.update ?c ig' (imports' b)\<rparr>"
    by (auto simp: addFile_def Let_def split: sum.splits)
  have m: "map_of (imports' b') = (map_of (imports' b))(?c \<mapsto> ig')"
    by (simp add: b' update_conv')
  have s: "set ig' = set ?ig \<union>
      {pkg. \<exists>v\<in>set (Imports f). strconvUnquote x v = Some pkg \<and> \<not> prefix (modPrefix b) pkg}"
    by (rule addImports_set [OF ai])
  show "modPrefix b' = modPrefix b" by (simp add: b')
  show "keysB b' = insert ?c (keysB b)" by (simp add: keysB_def m)
  show "relB b' = relB b \<union>
           {(?c, pkg) | v pkg.
              v \<in> set (Imports f) \<and> strconvUnquote x v = Some pkg \<and> \<not> prefix (modPrefix b) pkg}"
  proof (cases "map_of (imports' b) ?c")
    case None
    with s show ?thesis unfolding relB_def m by (auto split: if_splits)
  next
    case (Some old)
    with s show ?thesis unfolding relB_def m by (auto split: if_splits)
  qed
  show "invB b'" if "invB b"
  proof -
    from that have "distinct ?ig" by (auto simp: invB_def split: option.splits)
    then have "distinct ig'" by (rule addImports_distinct [OF ai])
    with that show ?thesis
      unfolding invB_def m by (auto simp: b' distinct_update split: if_splits)
  qed
qed

lemma walk_effect:
  "walkDir x path e b = Inr b' \<Longrightarrow>
     modPrefix b' = modPrefix b \<and>
     keysB b' = keysB b \<union> fileKeys (visited path e) \<and>
     relB b' = relB b \<union> filePkgs x (modPrefix b) (visited path e) \<and>
     (invB b \<longrightarrow> invB b')"
  "walkEntries x dir es b = Inr b' \<Longrightarrow>
     modPrefix b' = modPrefix b \<and>
     keysB b' = keysB b \<union> fileKeys (visitedList dir es) \<and>
     relB b' = relB b \<union> filePkgs x (modPrefix b) (visitedList dir es) \<and>
     (invB b \<longrightarrow> invB b')"
proof (induction x path e b and x dir es b arbitrary: b' and b' rule: walkDir_walkEntries.induct)
  case (1 x path filename parsed b)
  show ?case
  proof (cases "\<not> hidden filename \<and> suffix ''.go'' filename")
    case False
    with 1 show ?thesis by (auto simp: fileKeys_def filePkgs_def split: if_splits)
  next
    case True
    with 1 have af: "addFile x b path parsed = Inr b'" by simp
    then obtain f where f: "parsed = Some f" by (auto simp: addFile_def split: option.splits)
    show ?thesis
    proof (cases "Imports f = []")
      case True
      with af f have "b' = b" by (simp add: addFile_skip)
      with True f \<open>\<not> hidden filename \<and> suffix ''.go'' filename\<close> show ?thesis
        by (auto simp: fileKeys_def filePkgs_def)
    next
      case False
      note e = addFile_effect [OF af [unfolded f] False]
      from e f False \<open>\<not> hidden filename \<and> suffix ''.go'' filename\<close> show ?thesis
        by (auto simp: fileKeys_def filePkgs_def)
    qed
  qed
next
  case (2 x path filename es b)
  then show ?case by (auto simp: fileKeys_def filePkgs_def split: if_splits)
next
  case (3 x path filename b)
  then show ?case by (auto simp: fileKeys_def filePkgs_def split: if_splits)
next
  case (4 x dir b)
  then show ?case by (auto simp: fileKeys_def filePkgs_def)
next
  case (5 x dir e es b)
  from "5.prems" obtain b1 where
    w1: "walkDir x (pathJoin dir (entryName e)) e b = Inr b1" and
    w2: "walkEntries x dir es b1 = Inr b'"
    by (auto split: sum.splits)
  from "5.IH"(1) [OF w1] "5.IH"(2) [OF w1 w2] show ?case
    by (simp add: fileKeys_append filePkgs_append Un_assoc)
qed

lemma sortFunc_Cons: "sortFunc cmp (x # xs) = insertCmp cmp x (sortFunc cmp xs)"
  by (simp add: sortFunc_def)

lemma sortFunc_Nil: "sortFunc cmp [] = []"
  by (simp add: sortFunc_def)

lemma set_insertCmp: "set (insertCmp cmp x ys) = insert x (set ys)"
  by (induction ys) auto

lemma set_sortFunc: "set (sortFunc cmp xs) = set xs"
  by (induction xs) (simp_all add: sortFunc_Nil sortFunc_Cons set_insertCmp)

lemma distinct_map_insertCmp:
  "distinct (map f (insertCmp cmp x ys)) \<longleftrightarrow> f x \<notin> f ` set ys \<and> distinct (map f ys)"
  by (induction ys) (auto simp: set_insertCmp)

lemma distinct_map_sortFunc: "distinct (map f (sortFunc cmp xs)) \<longleftrightarrow> distinct (map f xs)"
  by (induction xs) (simp_all add: sortFunc_Nil sortFunc_Cons distinct_map_insertCmp set_sortFunc)

lemma sorted_insertCmp:
  "sorted (map BuildConstraints ys) \<Longrightarrow> sorted (map BuildConstraints (insertCmp groupCmp g ys))"
  by (induction ys) (auto simp: groupCmp_def set_insertCmp)

lemma sorted_sortFunc: "sorted (map BuildConstraints (sortFunc groupCmp gs))"
  by (induction gs) (simp_all add: sortFunc_Nil sortFunc_Cons sorted_insertCmp)

lemma map_fst_mkGroup: "map BuildConstraints (map mkGroup al) = map fst al"
  by (simp add: mkGroup_def comp_def)

lemma importGroups_set: "set (importGroups b) = mkGroup ` set (imports' b)"
  by (simp add: importGroups_def set_sortFunc)

lemma importGroups_sorted:
  assumes "invB b"
  shows "sorted_wrt (<) (map BuildConstraints (importGroups b))"
proof -
  have "distinct (map BuildConstraints (map mkGroup (imports' b)))"
    using assms by (simp only: map_fst_mkGroup invB_def)
  then have "distinct (map BuildConstraints (importGroups b))"
    by (simp only: importGroups_def distinct_map_sortFunc)
  moreover have "sorted (map BuildConstraints (importGroups b))"
    by (simp only: importGroups_def sorted_sortFunc)
  ultimately show ?thesis by (simp only: strict_sorted_iff)
qed

lemma importGroups_member:
  assumes "invB b"
  shows "g \<in> set (importGroups b) \<longleftrightarrow>
         (\<exists>ps. map_of (imports' b) (BuildConstraints g) = Some ps \<and> Packages g = sort ps)"
proof -
  from assms have d: "distinct (map fst (imports' b))" by (simp add: invB_def)
  show ?thesis
    unfolding importGroups_set
  proof
    assume "g \<in> mkGroup ` set (imports' b)"
    then obtain k ps where "(k, ps) \<in> set (imports' b)" "g = mkGroup (k, ps)" by auto
    then show "\<exists>ps. map_of (imports' b) (BuildConstraints g) = Some ps \<and> Packages g = sort ps"
      by (auto simp: mkGroup_def map_of_eq_Some_iff [OF d])
  next
    assume "\<exists>ps. map_of (imports' b) (BuildConstraints g) = Some ps \<and> Packages g = sort ps"
    then obtain ps where ps: "map_of (imports' b) (BuildConstraints g) = Some ps" "Packages g = sort ps"
      by blast
    from ps(1) have "(BuildConstraints g, ps) \<in> set (imports' b)"
      by (simp add: map_of_eq_Some_iff [OF d])
    moreover from ps(2) have "g = mkGroup (BuildConstraints g, ps)" by (simp add: mkGroup_def)
    ultimately show "g \<in> mkGroup ` set (imports' b)" by (rule rev_image_eqI)
  qed
qed

lemma importGroups_packages_sorted:
  assumes "invB b" and "g \<in> set (importGroups b)"
  shows "sorted_wrt (<) (Packages g)"
proof -
  from assms obtain ps where
    ps: "map_of (imports' b) (BuildConstraints g) = Some ps" "Packages g = sort ps"
    by (auto simp: importGroups_member)
  with assms(1) have "distinct ps" by (auto simp: invB_def)
  with ps(2) show ?thesis by (simp add: strict_sorted_iff)
qed

lemma importGroups_keys:
  assumes "invB b"
  shows "BuildConstraints ` set (importGroups b) = keysB b"
proof -
  have "BuildConstraints ` set (importGroups b) = set (map BuildConstraints (map mkGroup (imports' b)))"
    by (simp add: importGroups_set image_image)
  also have "\<dots> = fst ` set (imports' b)" by (simp only: map_fst_mkGroup set_map)
  finally show ?thesis by (simp add: keysB_def dom_map_of_conv_image_fst)
qed

lemma importGroups_rel:
  assumes "invB b"
  shows "(\<exists>g\<in>set (importGroups b). BuildConstraints g = c \<and> p \<in> set (Packages g)) \<longleftrightarrow>
         (c, p) \<in> relB b"
proof
  assume "\<exists>g\<in>set (importGroups b). BuildConstraints g = c \<and> p \<in> set (Packages g)"
  then obtain g where g: "g \<in> set (importGroups b)" "BuildConstraints g = c" "p \<in> set (Packages g)"
    by blast
  from g(1) assms obtain ps where
    "map_of (imports' b) (BuildConstraints g) = Some ps" "Packages g = sort ps"
    by (auto simp: importGroups_member)
  with g show "(c, p) \<in> relB b" by (auto simp: relB_def)
next
  assume "(c, p) \<in> relB b"
  then obtain ps where ps: "map_of (imports' b) c = Some ps" "p \<in> set ps"
    by (auto simp: relB_def)
  let ?g = "\<lparr>BuildConstraints = c, Packages = sort ps\<rparr>"
  from ps(1) assms have "?g \<in> set (importGroups b)" by (simp add: importGroups_member)
  with ps(2) show "\<exists>g\<in>set (importGroups b). BuildConstraints g = c \<and> p \<in> set (Packages g)"
    by (intro bexI [of _ ?g]) simp_all
qed

lemma invB_new: "invB (newImportsBuilder m)"
  by (simp add: invB_def newImportsBuilder_def)

lemma keysB_new: "keysB (newImportsBuilder m) = {}"
  by (simp add: keysB_def newImportsBuilder_def)

lemma relB_new: "relB (newImportsBuilder m) = {}"
  by (simp add: relB_def newImportsBuilder_def)

lemma modPrefix_new: "modPrefix (newImportsBuilder m) = m @ ''/''"
  by (simp add: newImportsBuilder_def)

text \<open>A group list with strictly sorted keys and strictly sorted package lists is
  determined by its keys and its key-package pairs.\<close>

lemma groups_unique:
  assumes s1: "sorted_wrt (<) (map BuildConstraints gs1)"
      and s2: "sorted_wrt (<) (map BuildConstraints gs2)"
      and p1: "\<forall>g\<in>set gs1. sorted_wrt (<) (Packages g)"
      and p2: "\<forall>g\<in>set gs2. sorted_wrt (<) (Packages g)"
      and k: "BuildConstraints ` set gs1 = BuildConstraints ` set gs2"
      and r: "groupPairs gs1 = groupPairs gs2"
  shows "gs1 = gs2"
proof -
  from s1 s2 have d1: "distinct (map BuildConstraints gs1)" and d2: "distinct (map BuildConstraints gs2)"
    and o1: "sorted (map BuildConstraints gs1)" and o2: "sorted (map BuildConstraints gs2)"
    by (simp_all add: strict_sorted_iff)
  have sub: "set as \<subseteq> set bs"
    if "BuildConstraints ` set as = BuildConstraints ` set bs"
      and "groupPairs as = groupPairs bs"
      and "\<forall>g\<in>set as. sorted_wrt (<) (Packages g)"
      and "\<forall>g\<in>set bs. sorted_wrt (<) (Packages g)"
      and "distinct (map BuildConstraints as)"
      and "distinct (map BuildConstraints bs)"
    for as bs :: "importGroup list"
  proof
    fix g assume g: "g \<in> set as"
    with that(1) obtain h where h: "h \<in> set bs" "BuildConstraints h = BuildConstraints g"
      by (metis image_iff)
    have inj_a: "inj_on BuildConstraints (set as)" and inj_b: "inj_on BuildConstraints (set bs)"
      using that(5,6) by (simp_all add: distinct_map)
    have "set (Packages g) = set (Packages h)"
    proof (intro set_eqI iffI)
      fix p assume "p \<in> set (Packages g)"
      with g have "(BuildConstraints g, p) \<in> groupPairs as" by (auto simp: groupPairs_def)
      with that(2) have "(BuildConstraints g, p) \<in> groupPairs bs" by simp
      then obtain h' where "h' \<in> set bs" "BuildConstraints h' = BuildConstraints g" "p \<in> set (Packages h')"
        by (auto simp: groupPairs_def)
      with h have "h' = h" using inj_onD [OF inj_b, of h' h] by simp
      with \<open>p \<in> set (Packages h')\<close> show "p \<in> set (Packages h)" by simp
    next
      fix p assume "p \<in> set (Packages h)"
      with h have "(BuildConstraints g, p) \<in> groupPairs bs"
        unfolding groupPairs_def by (metis (mono_tags, lifting) mem_Collect_eq)
      with that(2) have "(BuildConstraints g, p) \<in> groupPairs as" by simp
      then obtain g' where "g' \<in> set as" "BuildConstraints g' = BuildConstraints g" "p \<in> set (Packages g')"
        by (auto simp: groupPairs_def)
      with g have "g' = g" using inj_onD [OF inj_a, of g' g] by simp
      with \<open>p \<in> set (Packages g')\<close> show "p \<in> set (Packages g)" by simp
    qed
    moreover from that(3,4) g h have "sorted_wrt (<) (Packages g)" "sorted_wrt (<) (Packages h)"
      by simp_all
    ultimately have "Packages g = Packages h"
      by (auto simp: strict_sorted_iff intro: sorted_distinct_set_unique)
    with h(2) have "g = h" by simp
    with h(1) show "g \<in> set bs" by simp
  qed
  have "set gs1 = set gs2"
    using sub [OF k r p1 p2 d1 d2] sub [OF k [symmetric] r [symmetric] p2 p1 d2 d1] by blast
  moreover from d1 have "inj_on BuildConstraints (set gs1 \<union> set gs2)"
    using \<open>set gs1 = set gs2\<close> by (simp add: distinct_map)
  ultimately show ?thesis
    using o1 o2 d1 d2 by (intro map_sorted_distinct_set_unique [of BuildConstraints]) simp_all
qed

lemma prepareRecipe_Inr:
  assumes "prepareRecipe x w tree = Inr r"
  obtains m M s b where
    "files w ''go.mod'' = Some m" "modfileParse x m = Some (ModFile (Some M))"
    "files w ''go.sum'' = Some s"
    "walkDir x ''.'' tree (newImportsBuilder M) = Inr b"
    "r = \<lparr>ImportGroups = importGroups b, GoMod = m, GoSum = s\<rparr>"
  using assms
  by (auto simp: prepareRecipe_def osReadFile_def split: option.splits sum.splits modFile.splits)

lemma walk_from_new:
  assumes "walkDir x ''.'' tree (newImportsBuilder M) = Inr b"
  shows "invB b"
    and "keysB b = fileKeys (visited ''.'' tree)"
    and "relB b = filePkgs x (M @ ''/'') (visited ''.'' tree)"
  using walk_effect(1) [OF assms] by (simp_all add: invB_new keysB_new relB_new modPrefix_new)

lemma not_prefix_slash: "\<not> prefix (M @ ''/'') M"
  by (auto simp: prefix_def)

text \<open>
  C4. In a recipe produced by Prepare for module path \<open>M\<close>, package \<open>p\<close> is in the
  group of expression \<open>c\<close> exactly when some candidate file with that expression imports
  \<open>p\<close> and \<open>p\<close> does not start with \<open>M/\<close>. So an import with the prefix is in no
  group and every other import is retained; the bare module path \<open>M\<close> does not have the
  prefix.
\<close>

theorem self_import_exclusion:
  assumes "prepareRecipe x w tree = Inr r"
    and "files w ''go.mod'' = Some m"
    and "modfileParse x m = Some (ModFile (Some M))"
  shows "((\<exists>g\<in>set (ImportGroups r). BuildConstraints g = c \<and> p \<in> set (Packages g)) \<longleftrightarrow>
          (\<exists>path f v. (path, Some f) \<in> set (visited ''.'' tree) \<and> extractBuildConstraints f = c \<and>
               v \<in> set (Imports f) \<and> strconvUnquote x v = Some p) \<and> \<not> prefix (M @ ''/'') p)
         \<and> \<not> prefix (M @ ''/'') M"
proof -
  from assms(1) obtain m' M' s b where
    *: "files w ''go.mod'' = Some m'" "modfileParse x m' = Some (ModFile (Some M'))"
       "walkDir x ''.'' tree (newImportsBuilder M') = Inr b"
       "r = \<lparr>ImportGroups = importGroups b, GoMod = m', GoSum = s\<rparr>"
    by (rule prepareRecipe_Inr)
  with assms(2,3) have M: "M' = M" by simp
  note wf = walk_from_new [OF *(3) [unfolded M]]
  have "(\<exists>g\<in>set (ImportGroups r). BuildConstraints g = c \<and> p \<in> set (Packages g)) \<longleftrightarrow>
        (c, p) \<in> filePkgs x (M @ ''/'') (visited ''.'' tree)"
    using importGroups_rel [OF wf(1)] by (simp add: *(4) wf(3))
  also have "\<dots> \<longleftrightarrow> (\<exists>path f v. (path, Some f) \<in> set (visited ''.'' tree) \<and> extractBuildConstraints f = c \<and>
               v \<in> set (Imports f) \<and> strconvUnquote x v = Some p) \<and> \<not> prefix (M @ ''/'') p"
    by (auto simp: filePkgs_def)
  finally show ?thesis by (simp add: not_prefix_slash)
qed

text \<open>
  C5. In a recipe produced by Prepare the constraint expressions of the groups are
  strictly ascending, so the groups are sorted and no expression occurs twice; the
  packages of every group are strictly ascending, so sorted and without duplicates; a
  group with the empty expression is the first one; and every file with imports has
  exactly one group position carrying its expression.
\<close>

theorem recipe_sorted_grouped:
  assumes "prepareRecipe x w tree = Inr r"
  shows "sorted_wrt (<) (map BuildConstraints (ImportGroups r)) \<and>
         (\<forall>g\<in>set (ImportGroups r). sorted_wrt (<) (Packages g)) \<and>
         (\<forall>g\<in>set (ImportGroups r). BuildConstraints g = [] \<longrightarrow> g = hd (ImportGroups r)) \<and>
         (\<forall>path f. (path, Some f) \<in> set (visited ''.'' tree) \<and> Imports f \<noteq> [] \<longrightarrow>
            (\<exists>!i. i < length (ImportGroups r) \<and>
                   BuildConstraints (ImportGroups r ! i) = extractBuildConstraints f))"
proof -
  from assms obtain m M s b where
    *: "walkDir x ''.'' tree (newImportsBuilder M) = Inr b"
       "r = \<lparr>ImportGroups = importGroups b, GoMod = m, GoSum = s\<rparr>"
    by (rule prepareRecipe_Inr)
  note wf = walk_from_new [OF *(1)]
  let ?gs = "ImportGroups r"
  have gs: "?gs = importGroups b" by (simp add: *(2))
  have s: "sorted_wrt (<) (map BuildConstraints ?gs)"
    unfolding gs by (rule importGroups_sorted [OF wf(1)])
  have p: "\<forall>g\<in>set ?gs. sorted_wrt (<) (Packages g)"
    unfolding gs using importGroups_packages_sorted [OF wf(1)] by blast
  have e: "\<forall>g\<in>set ?gs. BuildConstraints g = [] \<longrightarrow> g = hd ?gs"
  proof (cases ?gs)
    case Nil
    then show ?thesis by simp
  next
    case (Cons h rest)
    with s have "\<forall>g\<in>set rest. BuildConstraints h < BuildConstraints g" by simp
    then have "\<forall>g\<in>set rest. BuildConstraints g \<noteq> []" by auto
    with Cons show ?thesis by auto
  qed
  have u: "\<exists>!i. i < length ?gs \<and> BuildConstraints (?gs ! i) = extractBuildConstraints f"
    if "(path, Some f) \<in> set (visited ''.'' tree)" "Imports f \<noteq> []" for path f
  proof -
    from that have "extractBuildConstraints f \<in> fileKeys (visited ''.'' tree)"
      by (auto simp: fileKeys_def)
    then have "extractBuildConstraints f \<in> set (map BuildConstraints ?gs)"
      using importGroups_keys [OF wf(1)] by (simp add: gs wf(2))
    moreover from s have "distinct (map BuildConstraints ?gs)" by (simp add: strict_sorted_iff)
    ultimately have "\<exists>!i. i < length (map BuildConstraints ?gs) \<and>
        map BuildConstraints ?gs ! i = extractBuildConstraints f"
      by (intro distinct_Ex1)
    then show ?thesis by (auto cong: conj_cong)
  qed
  from s p e u show ?thesis by blast
qed

text \<open>
  C9. The expressions of the groups are exactly the expressions of the candidate files
  with at least one import, whether or not any import survives the exclusion; a group is
  empty exactly when every import of every file with its expression starts with the module
  prefix; and a file without imports leaves the builder as it is.
\<close>

theorem empty_group_registered:
  assumes "prepareRecipe x w tree = Inr r"
    and "files w ''go.mod'' = Some m"
    and "modfileParse x m = Some (ModFile (Some M))"
  shows "(c \<in> BuildConstraints ` set (ImportGroups r) \<longleftrightarrow>
            (\<exists>path f. (path, Some f) \<in> set (visited ''.'' tree) \<and> Imports f \<noteq> [] \<and>
                extractBuildConstraints f = c)) \<and>
         (\<forall>g\<in>set (ImportGroups r). Packages g = [] \<longleftrightarrow>
            (\<forall>path f v p. (path, Some f) \<in> set (visited ''.'' tree) \<and>
                extractBuildConstraints f = BuildConstraints g \<and>
                v \<in> set (Imports f) \<and> strconvUnquote x v = Some p \<longrightarrow> prefix (M @ ''/'') p)) \<and>
         (\<forall>b path f. Imports f = [] \<longrightarrow> addFile x b path (Some f) = Inr b)"
proof -
  from assms(1) obtain m' M' s b where
    *: "files w ''go.mod'' = Some m'" "modfileParse x m' = Some (ModFile (Some M'))"
       "walkDir x ''.'' tree (newImportsBuilder M') = Inr b"
       "r = \<lparr>ImportGroups = importGroups b, GoMod = m', GoSum = s\<rparr>"
    by (rule prepareRecipe_Inr)
  with assms(2,3) have M: "M' = M" by simp
  note wf = walk_from_new [OF *(3) [unfolded M]]
  have gs: "ImportGroups r = importGroups b" by (simp add: *(4))
  have k: "c \<in> BuildConstraints ` set (ImportGroups r) \<longleftrightarrow>
            (\<exists>path f. (path, Some f) \<in> set (visited ''.'' tree) \<and> Imports f \<noteq> [] \<and>
                extractBuildConstraints f = c)"
    unfolding gs importGroups_keys [OF wf(1)] wf(2) by (auto simp: fileKeys_def)
  have e: "Packages g = [] \<longleftrightarrow>
            (\<forall>path f v p. (path, Some f) \<in> set (visited ''.'' tree) \<and>
                extractBuildConstraints f = BuildConstraints g \<and>
                v \<in> set (Imports f) \<and> strconvUnquote x v = Some p \<longrightarrow> prefix (M @ ''/'') p)"
    if g: "g \<in> set (ImportGroups r)" for g
  proof -
    have "Packages g = [] \<longleftrightarrow> (\<forall>p. p \<notin> set (Packages g))" by (cases "Packages g") auto
    also have "\<dots> \<longleftrightarrow> (\<forall>p. (BuildConstraints g, p) \<notin> relB b)"
    proof -
      have "p \<in> set (Packages g) \<longleftrightarrow> (BuildConstraints g, p) \<in> relB b" for p
      proof
        assume "p \<in> set (Packages g)"
        with g show "(BuildConstraints g, p) \<in> relB b"
          using importGroups_rel [OF wf(1), of "BuildConstraints g" p] by (auto simp: gs)
      next
        assume "(BuildConstraints g, p) \<in> relB b"
        then obtain h where h: "h \<in> set (importGroups b)" "BuildConstraints h = BuildConstraints g"
          "p \<in> set (Packages h)"
          using importGroups_rel [OF wf(1), of "BuildConstraints g" p] by auto
        from importGroups_sorted [OF wf(1)] have "inj_on BuildConstraints (set (importGroups b))"
          by (simp add: strict_sorted_iff distinct_map)
        with h g have "h = g" by (auto simp: gs dest: inj_onD)
        with h(3) show "p \<in> set (Packages g)" by simp
      qed
      then show ?thesis by simp
    qed
    also have "\<dots> \<longleftrightarrow> (\<forall>path f v p. (path, Some f) \<in> set (visited ''.'' tree) \<and>
                extractBuildConstraints f = BuildConstraints g \<and>
                v \<in> set (Imports f) \<and> strconvUnquote x v = Some p \<longrightarrow> prefix (M @ ''/'') p)"
      unfolding wf(3) filePkgs_def by auto
    finally show ?thesis .
  qed
  from k e show ?thesis by (simp add: addFile_skip)
qed

lemma fileTuple_mem:
  "Some (p, is, c) \<in> fileTuple x ` set vs \<longleftrightarrow>
   (\<exists>f. (p, Some f) \<in> set vs \<and> is = map (strconvUnquote x) (Imports f) \<and> c = extractBuildConstraints f)"
proof
  assume "Some (p, is, c) \<in> fileTuple x ` set vs"
  then obtain v where v: "v \<in> set vs" "fileTuple x v = Some (p, is, c)" by auto
  obtain q pf where "v = (q, pf)" by (cases v)
  with v have q: "(q, pf) \<in> set vs" "fileTuple x (q, pf) = Some (p, is, c)" by simp_all
  then show "\<exists>f. (p, Some f) \<in> set vs \<and> is = map (strconvUnquote x) (Imports f) \<and> c = extractBuildConstraints f"
    by (cases pf) auto
next
  assume "\<exists>f. (p, Some f) \<in> set vs \<and> is = map (strconvUnquote x) (Imports f) \<and> c = extractBuildConstraints f"
  then obtain f where "(p, Some f) \<in> set vs" "fileTuple x (p, Some f) = Some (p, is, c)" by auto
  then show "Some (p, is, c) \<in> fileTuple x ` set vs" by (intro rev_image_eqI) auto
qed

lemma fileKeys_tuple:
  "fileKeys vs = {c. \<exists>p is. Some (p, is, c) \<in> fileTuple x ` set vs \<and> is \<noteq> []}"
  unfolding fileTuple_mem by (auto simp: fileKeys_def)

lemma filePkgs_tuple:
  "filePkgs x pre vs =
     {(c, pkg). \<exists>p is. Some (p, is, c) \<in> fileTuple x ` set vs \<and> Some pkg \<in> set is \<and> \<not> prefix pre pkg}"
proof -
  have mem: "Some pkg \<in> set (map u vs) \<longleftrightarrow> (\<exists>v\<in>set vs. u v = Some pkg)"
    for pkg :: string and u :: "string \<Rightarrow> string option" and vs
    by (induction vs) auto
  have "(c, pkg) \<in> filePkgs x pre vs \<longleftrightarrow>
        (\<exists>p is. Some (p, is, c) \<in> fileTuple x ` set vs \<and> Some pkg \<in> set is \<and> \<not> prefix pre pkg)"
    for c pkg
    unfolding fileTuple_mem filePkgs_def using mem [of pkg "strconvUnquote x"] by blast
  then have "z \<in> filePkgs x pre vs \<longleftrightarrow>
      z \<in> {(c, pkg). \<exists>p is. Some (p, is, c) \<in> fileTuple x ` set vs \<and> Some pkg \<in> set is \<and> \<not> prefix pre pkg}"
    for z by (cases z) simp
  then show ?thesis by (rule set_eqI)
qed

lemma runPrepare_ok:
  assumes "runPrepare x out w tree = (w', None)"
  obtains r where "prepareRecipe x w tree = Inr r" "files w' out = Some (jsonMarshal x r)"
  using assms
  by (auto simp: runPrepare_def osWriteFile_def split: sum.splits if_splits)

text \<open>
  C2 (as the code has it). Two successful Prepare runs whose go.mod texts agree, whose
  go.sum texts agree and whose candidate files give the same set of (file, import paths,
  expression) tuples compute the same recipe and write the same bytes; the order of the
  visit and everything else in the files play no part. The texts of go.mod and go.sum are
  part of the recipe, so agreement on the module path alone is not enough.
\<close>

theorem recipe_deterministic:
  assumes "runPrepare x out w1 t1 = (w1', None)"
    and "runPrepare x out w2 t2 = (w2', None)"
    and "files w1 ''go.mod'' = files w2 ''go.mod''"
    and "files w1 ''go.sum'' = files w2 ''go.sum''"
    and "fileTuple x ` set (visited ''.'' t1) = fileTuple x ` set (visited ''.'' t2)"
  shows "prepareRecipe x w1 t1 = prepareRecipe x w2 t2 \<and>
         files w1' out = files w2' out \<and> files w1' out \<noteq> None"
proof -
  from assms(1) obtain r1 where r1: "prepareRecipe x w1 t1 = Inr r1" "files w1' out = Some (jsonMarshal x r1)"
    by (rule runPrepare_ok)
  from assms(2) obtain r2 where r2: "prepareRecipe x w2 t2 = Inr r2" "files w2' out = Some (jsonMarshal x r2)"
    by (rule runPrepare_ok)
  from r1(1) obtain m1 M1 s1 b1 where
    1: "files w1 ''go.mod'' = Some m1" "modfileParse x m1 = Some (ModFile (Some M1))"
       "files w1 ''go.sum'' = Some s1"
       "walkDir x ''.'' t1 (newImportsBuilder M1) = Inr b1"
       "r1 = \<lparr>ImportGroups = importGroups b1, GoMod = m1, GoSum = s1\<rparr>"
    by (rule prepareRecipe_Inr)
  from r2(1) obtain m2 M2 s2 b2 where
    2: "files w2 ''go.mod'' = Some m2" "modfileParse x m2 = Some (ModFile (Some M2))"
       "files w2 ''go.sum'' = Some s2"
       "walkDir x ''.'' t2 (newImportsBuilder M2) = Inr b2"
       "r2 = \<lparr>ImportGroups = importGroups b2, GoMod = m2, GoSum = s2\<rparr>"
    by (rule prepareRecipe_Inr)
  from 1 2 assms(3,4) have eq: "m1 = m2" "s1 = s2" "M1 = M2" by simp_all
  note f1 = walk_from_new [OF 1(4)]
  note f2 = walk_from_new [OF 2(4)]
  have k: "keysB b1 = keysB b2"
    unfolding f1(2) f2(2) fileKeys_tuple [of _ x] assms(5) ..
  have r: "relB b1 = relB b2"
    unfolding f1(3) f2(3) eq(3) filePkgs_tuple assms(5) ..
  have "importGroups b1 = importGroups b2"
  proof (rule groups_unique)
    show "sorted_wrt (<) (map BuildConstraints (importGroups b1))" by (rule importGroups_sorted [OF f1(1)])
    show "sorted_wrt (<) (map BuildConstraints (importGroups b2))" by (rule importGroups_sorted [OF f2(1)])
    show "\<forall>g\<in>set (importGroups b1). sorted_wrt (<) (Packages g)"
      using importGroups_packages_sorted [OF f1(1)] by blast
    show "\<forall>g\<in>set (importGroups b2). sorted_wrt (<) (Packages g)"
      using importGroups_packages_sorted [OF f2(1)] by blast
    show "BuildConstraints ` set (importGroups b1) = BuildConstraints ` set (importGroups b2)"
      by (simp only: importGroups_keys [OF f1(1)] importGroups_keys [OF f2(1)] k)
    have "groupPairs (importGroups b) = relB b" if "invB b" for b
    proof -
      have "(c, p) \<in> groupPairs (importGroups b) \<longleftrightarrow> (c, p) \<in> relB b" for c p
        using importGroups_rel [OF that, of c p] unfolding groupPairs_def by blast
      then show ?thesis by auto
    qed
    then show "groupPairs (importGroups b1) = groupPairs (importGroups b2)"
      using f1(1) f2(1) r by simp
  qed
  with 1(5) 2(5) eq have "r1 = r2" by simp
  with r1 r2 show ?thesis by simp
qed

text \<open>
  C8. If a candidate file does not parse, Prepare returns an error and the directory is
  what it was: nothing is written to the recipe path.
\<close>

theorem parse_error_no_recipe:
  assumes "(p, None) \<in> set (visited ''.'' tree)"
  shows "\<exists>e. runPrepare x recipePath w tree = (w, Some e)"
proof -
  have ne: "walkDir x ''.'' tree b \<noteq> Inr b'" for b b'
    using walk_parse_error(1) [OF assms, of x b] by auto
  have "\<exists>e. prepareRecipe x w tree = Inl e"
    by (auto simp: prepareRecipe_def ne split: sum.splits option.splits modFile.splits)
  then show ?thesis by (auto simp: runPrepare_def)
qed

lemma showNat_nonempty: "showNat n \<noteq> []"
  by (subst showNat.simps) simp

lemma digit_inj: "a < 10 \<Longrightarrow> b < 10 \<Longrightarrow> digit a = digit b \<Longrightarrow> a = b"
proof -
  assume a: "a < 10" and b: "b < 10" and e: "digit a = digit b"
  from e have "of_char (digit a) = (of_char (digit b) :: nat)" by simp
  with a b show "a = b" by (simp add: digit_def)
qed

lemma showNat_inj: "showNat n = showNat m \<Longrightarrow> n = m"
proof (induction n arbitrary: m rule: showNat.induct)
  case (1 n)
  show ?case
  proof (cases "n < 10")
    case True
    show ?thesis
    proof (cases "m < 10")
      case mt: True
      from "1.prems" True mt have "digit n = digit m"
        by (simp add: showNat.simps [of n] showNat.simps [of m])
      with True mt show ?thesis by (rule digit_inj)
    next
      case False
      with "1.prems" True showNat_nonempty [of "m div 10"] show ?thesis
        by (simp add: showNat.simps [of n] showNat.simps [of m])
    qed
  next
    case False
    show ?thesis
    proof (cases "m < 10")
      case True
      with "1.prems" False showNat_nonempty [of "n div 10"] show ?thesis
        by (simp add: showNat.simps [of n] showNat.simps [of m])
    next
      case mf: False
      from "1.prems" False mf have
        "showNat (n div 10) = showNat (m div 10)" "digit (n mod 10) = digit (m mod 10)"
        by (simp_all add: showNat.simps [of n] showNat.simps [of m])
      with "1.IH" [OF False] have "n div 10 = m div 10" "n mod 10 = m mod 10"
        by (auto intro: digit_inj)
      then show ?thesis by (metis div_mult_mod_eq)
    qed
  qed
qed

lemma goFileName_inj: "goFileName i = goFileName j \<Longrightarrow> i = j"
  using showNat_nonempty [of i] showNat_nonempty [of j]
  by (auto simp: goFileName_def dest: showNat_inj split: if_splits)

lemma goFileName_not_mod: "goFileName i \<noteq> ''go.mod''" "goFileName i \<noteq> ''go.sum''"
  by (simp_all add: goFileName_def)

lemma writeGroups_None:
  "writeGroups x i gs acc w = (w', goFiles, None) \<Longrightarrow>
     goFiles = acc @ map goFileName [i..<i + length gs] \<and>
     wdeny w' = wdeny w \<and> rmdeny w' = rmdeny w \<and>
     (\<forall>j<length gs. files w' (goFileName (i + j)) = Some (mainContent x (i + j) (gs ! j))) \<and>
     (\<forall>p. p \<notin> goFileName ` {i..<i + length gs} \<longrightarrow> files w' p = files w p)"
proof (induction gs arbitrary: i acc w)
  case Nil
  then show ?case by simp
next
  case (Cons g gs)
  let ?w1 = "w\<lparr>files := (files w)(goFileName i \<mapsto> mainContent x i g)\<rparr>"
  from Cons.prems have nd: "\<not> wdeny w (goFileName i)"
    and rec: "writeGroups x (i + 1) gs (acc @ [goFileName i]) ?w1 = (w', goFiles, None)"
    by (auto simp: osWriteFile_def Let_def split: if_splits)
  note ih = Cons.IH [OF rec]
  have names: "goFiles = acc @ map goFileName [i..<i + length (g # gs)]"
  proof -
    have "i < i + length (g # gs)" by simp
    then have "[i..<i + length (g # gs)] = i # [Suc i..<i + length (g # gs)]"
      by (rule upt_conv_Cons)
    moreover have "i + length (g # gs) = i + 1 + length gs" by simp
    ultimately have "[i..<i + length (g # gs)] = i # [i + 1..<i + 1 + length gs]"
      by (simp only: Suc_eq_plus1)
    with ih show ?thesis by (simp only: map_append append_assoc list.map append.simps)
  qed
  have keep: "files w' (goFileName i) = Some (mainContent x i g)"
  proof -
    have "goFileName i \<notin> goFileName ` {i + 1..<i + 1 + length gs}"
      by (auto dest: goFileName_inj)
    with ih show ?thesis by simp
  qed
  have at: "files w' (goFileName (i + j)) = Some (mainContent x (i + j) ((g # gs) ! j))"
    if "j < length (g # gs)" for j
  proof (cases j)
    case 0
    with keep show ?thesis by simp
  next
    case (Suc k)
    with that ih show ?thesis by simp
  qed
  have frame: "files w' p = files w p" if "p \<notin> goFileName ` {i..<i + length (g # gs)}" for p
  proof -
    from that have "p \<notin> goFileName ` {i + 1..<i + 1 + length gs}" "p \<noteq> goFileName i"
      by auto
    with ih show ?thesis by simp
  qed
  from names ih at frame show ?case by simp
qed

lemma cleanup_result:
  "cleanup w fs errs = (w', errs') \<Longrightarrow> distinct fs \<Longrightarrow> \<forall>f\<in>set fs. files w f \<noteq> None \<Longrightarrow>
     errs' = errs @ map (\<lambda>f. if rmdeny w f then Some (RemoveError f) else None) fs \<and>
     wdeny w' = wdeny w \<and> rmdeny w' = rmdeny w \<and>
     (\<forall>p. files w' p = (if p \<in> set fs \<and> \<not> rmdeny w p then None else files w p))"
proof (induction fs arbitrary: w errs)
  case Nil
  then show ?case by simp
next
  case (Cons f fs)
  show ?case
  proof (cases "rmdeny w f")
    case True
    with Cons.prems have "cleanup w fs (errs @ [Some (RemoveError f)]) = (w', errs')"
      by (simp add: osRemove_def)
    moreover from Cons.prems have "distinct fs" "\<forall>f\<in>set fs. files w f \<noteq> None" by simp_all
    ultimately have "errs' = (errs @ [Some (RemoveError f)]) @
          map (\<lambda>f. if rmdeny w f then Some (RemoveError f) else None) fs \<and>
        wdeny w' = wdeny w \<and> rmdeny w' = rmdeny w \<and>
        (\<forall>p. files w' p = (if p \<in> set fs \<and> \<not> rmdeny w p then None else files w p))"
      by (rule Cons.IH)
    with True show ?thesis by simp
  next
    case False
    let ?w1 = "w\<lparr>files := (files w)(f := None)\<rparr>"
    from False Cons.prems have "cleanup ?w1 fs (errs @ [None]) = (w', errs')"
      by (auto simp: osRemove_def)
    moreover from Cons.prems have d: "distinct fs" "f \<notin> set fs" by simp_all
    moreover from Cons.prems d(2) have "\<forall>f'\<in>set fs. files ?w1 f' \<noteq> None" by auto
    ultimately have "errs' = (errs @ [None]) @
          map (\<lambda>f. if rmdeny ?w1 f then Some (RemoveError f) else None) fs \<and>
        wdeny w' = wdeny ?w1 \<and> rmdeny w' = rmdeny ?w1 \<and>
        (\<forall>p. files w' p = (if p \<in> set fs \<and> \<not> rmdeny ?w1 p then None else files ?w1 p))"
      by (intro Cons.IH)
    with False show ?thesis by simp
  qed
qed

lemma foldl_lines:
  "foldl (\<lambda>mc imp. mc @ h imp) c ps = c @ concat (map h ps)"
  by (induction ps arbitrary: c) simp_all

lemma mainContent_parts:
  "mainContent x i g =
     buildHeader g @ ''package main'' @ nl @ nl @ ''import ('' @ nl @
     concat (map (importLine x) (Packages g)) @ '')'' @ nl @ (if i = 0 then entryPoint else [])"
proof -
  have "foldl (\<lambda>mc imp. mc @ tab @ ''_ '' @ fmtQuote x imp @ nl) c ps =
        c @ concat (map (importLine x) ps)" for c ps
    using foldl_lines [of "importLine x" c ps] by (simp add: importLine_def)
  then show ?thesis by (simp add: mainContent_def buildHeader_def Let_def)
qed

lemma mainContent_header:
  "prefix ''//go:build '' (mainContent x i g) \<longleftrightarrow> BuildConstraints g \<noteq> []"
  by (simp add: mainContent_parts buildHeader_def)

lemma mainContent_import:
  assumes "p \<in> set (Packages g)"
  shows "sublist (importLine x p) (mainContent x i g)"
proof -
  from assms obtain ps qs where "Packages g = ps @ p # qs" by (auto simp: in_set_conv_decomp)
  then have "mainContent x i g =
      (buildHeader g @ ''package main'' @ nl @ nl @ ''import ('' @ nl @ concat (map (importLine x) ps)) @
      importLine x p @
      (concat (map (importLine x) qs) @ '')'' @ nl @ (if i = 0 then entryPoint else []))"
    by (simp add: mainContent_parts)
  then show ?thesis unfolding sublist_def by blast
qed

lemma suffix_last2: "suffix (us @ [a, b]) (vs @ [c, d]) \<Longrightarrow> a = c"
proof -
  assume "suffix (us @ [a, b]) (vs @ [c, d])"
  then obtain zs where "vs @ [c, d] = zs @ us @ [a, b]" by (auto simp: suffix_def)
  then have "rev (vs @ [c, d]) = rev (zs @ us @ [a, b])" by simp
  then show ?thesis by simp
qed

lemma mainContent_entry: "suffix entryPoint (mainContent x i g) \<longleftrightarrow> i = 0"
proof
  assume s: "suffix entryPoint (mainContent x i g)"
  show "i = 0"
  proof (rule ccontr)
    assume "i \<noteq> 0"
    then have "mainContent x i g =
        (buildHeader g @ ''package main'' @ nl @ nl @ ''import ('' @ nl @
         concat (map (importLine x) (Packages g))) @ [CHR '')'', CHR 0x0A]"
      by (simp add: mainContent_parts nl_def)
    moreover have "entryPoint = (nl @ ''func main() {'') @ [CHR ''}'', CHR 0x0A]"
      by (simp add: entryPoint_def nl_def)
    ultimately have "CHR ''}'' = CHR '')''" using s suffix_last2 by metis
    then show False by simp
  qed
next
  assume "i = 0"
  then show "suffix entryPoint (mainContent x i g)"
    by (simp add: mainContent_parts suffix_def)
qed

text \<open>
  C7. When the loop over the groups has written all its files, there is one file name
  per group, the names differ from each other, and the file of group \<open>i\<close> holds the
  generated content of that group. The content starts with \<open>//go:build \<close> exactly when
  the expression is not empty; after the optional header comes \<open>package main\<close>; every
  package of the group has its blank import line; and the content ends with the entry
  point \<open>func main() {}\<close> exactly for the first group.
\<close>

theorem one_file_per_group:
  assumes "writeGroups x 0 gs [] w = (w', goFiles, None)"
  shows "length goFiles = length gs \<and> distinct goFiles \<and>
         (\<forall>i<length gs.
            files w' (goFiles ! i) = Some (mainContent x i (gs ! i)) \<and>
            (prefix ''//go:build '' (mainContent x i (gs ! i)) \<longleftrightarrow> BuildConstraints (gs ! i) \<noteq> []) \<and>
            (\<exists>rest. mainContent x i (gs ! i) =
               (if BuildConstraints (gs ! i) \<noteq> []
                then ''//go:build '' @ BuildConstraints (gs ! i) @ nl @ nl else []) @
               ''package main'' @ nl @ rest) \<and>
            (\<forall>p\<in>set (Packages (gs ! i)).
               sublist (tab @ ''_ '' @ fmtQuote x p @ nl) (mainContent x i (gs ! i))) \<and>
            (suffix entryPoint (mainContent x i (gs ! i)) \<longleftrightarrow> i = 0))"
proof -
  from writeGroups_None [OF assms] have
    names: "goFiles = map goFileName [0..<length gs]" and
    at: "\<forall>j<length gs. files w' (goFileName j) = Some (mainContent x j (gs ! j))"
    by simp_all
  have d: "distinct goFiles"
    unfolding names by (auto simp: distinct_map intro!: inj_onI dest: goFileName_inj)
  have parts: "\<exists>rest. mainContent x i g =
      (if BuildConstraints g \<noteq> [] then ''//go:build '' @ BuildConstraints g @ nl @ nl else []) @
      ''package main'' @ nl @ rest" for i g
    by (simp add: mainContent_parts buildHeader_def)
  have imp: "\<forall>p\<in>set (Packages g). sublist (tab @ ''_ '' @ fmtQuote x p @ nl) (mainContent x i g)" for i g
    using mainContent_import [of _ g x i] by (simp add: importLine_def)
  from names d at parts imp show ?thesis
    by (simp add: mainContent_header mainContent_entry)
qed

lemma writeGroups_succeeds:
  "\<forall>j<length gs. \<not> wdeny w (goFileName (i + j)) \<Longrightarrow>
   \<exists>w' goFiles. writeGroups x i gs acc w = (w', goFiles, None)"
proof (induction gs arbitrary: i acc w)
  case Nil
  then show ?case by simp
next
  case (Cons g gs)
  let ?w1 = "w\<lparr>files := (files w)(goFileName i \<mapsto> mainContent x i g)\<rparr>"
  from Cons.prems have 0: "\<not> wdeny w (goFileName i)" by force
  have "\<forall>j<length gs. \<not> wdeny ?w1 (goFileName (i + 1 + j))"
  proof (intro allI impI)
    fix j assume "j < length gs"
    then have "Suc j < length (g # gs)" by simp
    with Cons.prems have "\<not> wdeny w (goFileName (i + Suc j))" by blast
    then show "\<not> wdeny ?w1 (goFileName (i + 1 + j))" by simp
  qed
  from Cons.IH [OF this] 0 show ?case by (simp add: osWriteFile_def Let_def)
qed

lemma errorsJoin_None: "errorsJoin errs = None \<longleftrightarrow> (\<forall>e\<in>set errs. e = None)"
  by (induction errs) (auto simp: errorsJoin_def List.map_filter_simps Let_def split: option.splits)

lemma runCook_staged:
  assumes "files w rp = Some js" and "jsonUnmarshal x js = Some r"
    and "\<not> wdeny w ''go.mod''" and "\<not> wdeny w ''go.sum''"
    and "\<forall>i<length (ImportGroups r). \<not> wdeny w (goFileName i)"
  obtains w3 where
    "wdeny w3 = wdeny w" "rmdeny w3 = rmdeny w"
    "\<forall>i<length (ImportGroups r). files w3 (goFileName i) = Some (mainContent x i (ImportGroups r ! i))"
    "\<forall>p. p \<notin> goFileName ` {0..<length (ImportGroups r)} \<longrightarrow>
         files w3 p = ((files w)(''go.mod'' \<mapsto> GoMod r, ''go.sum'' \<mapsto> GoSum r)) p"
    "runCook x rp tags w =
       (if \<not> goCommand x (buildArgs tags) (files w3) then (w3, Some BuildError)
        else (case cleanup w3 (map goFileName [0..<length (ImportGroups r)]) [] of
                (w4, cleanupErrs) \<Rightarrow> (w4, errorsJoin cleanupErrs)))"
proof -
  let ?w2 = "w\<lparr>files := (files w)(''go.mod'' \<mapsto> GoMod r, ''go.sum'' \<mapsto> GoSum r)\<rparr>"
  from assms(5) have "\<forall>j<length (ImportGroups r). \<not> wdeny ?w2 (goFileName (0 + j))" by simp
  from writeGroups_succeeds [OF this] obtain w3 goFiles where
    wg: "writeGroups x 0 (ImportGroups r) [] ?w2 = (w3, goFiles, None)" by blast
  note n = writeGroups_None [OF wg]
  from n have names: "goFiles = map goFileName [0..<length (ImportGroups r)]" by simp
  have rc: "runCook x rp tags w =
       (if \<not> goCommand x (buildArgs tags) (files w3) then (w3, Some BuildError)
        else (case cleanup w3 (map goFileName [0..<length (ImportGroups r)]) [] of
                (w4, cleanupErrs) \<Rightarrow> (w4, errorsJoin cleanupErrs)))"
    using assms(1-4) wg by (simp add: runCook_def osReadFile_def osWriteFile_def names)
  show thesis
  proof (rule that [OF _ _ _ _ rc])
    show "wdeny w3 = wdeny w" "rmdeny w3 = rmdeny w" using n by simp_all
    show "\<forall>i<length (ImportGroups r). files w3 (goFileName i) = Some (mainContent x i (ImportGroups r ! i))"
      using n by simp
    show "\<forall>p. p \<notin> goFileName ` {0..<length (ImportGroups r)} \<longrightarrow>
         files w3 p = ((files w)(''go.mod'' \<mapsto> GoMod r, ''go.sum'' \<mapsto> GoSum r)) p"
      using n by simp
  qed
qed

text \<open>
  C1 (as the code has it). Let the recipe be readable and every write be permitted. If the
  build succeeds, removal is attempted for every generated file: a file stays only if its
  removal fails, the failure of one removal does not stop the others, and the error
  returned is \<open>errors.Join\<close> of the results in order. If the build fails, Cook returns
  the build error at once and the directory is the staged one: no generated file is
  removed.
\<close>

theorem cook_cleanup_after_build:
  assumes "files w rp = Some js" and "jsonUnmarshal x js = Some r"
    and "\<not> wdeny w ''go.mod''" and "\<not> wdeny w ''go.sum''"
    and "\<forall>i<length (ImportGroups r). \<not> wdeny w (goFileName i)"
    and "runCook x rp tags w = (w', err)"
  shows "\<exists>staged.
           (\<forall>i<length (ImportGroups r). staged (goFileName i) = Some (mainContent x i (ImportGroups r ! i))) \<and>
           (if goCommand x (buildArgs tags) staged
            then err = errorsJoin (map (\<lambda>i. if rmdeny w (goFileName i) then Some (RemoveError (goFileName i)) else None)
                                    [0..<length (ImportGroups r)]) \<and>
                 (\<forall>i<length (ImportGroups r).
                    files w' (goFileName i) = (if rmdeny w (goFileName i) then staged (goFileName i) else None))
            else err = Some BuildError \<and> files w' = staged)"
proof -
  let ?n = "length (ImportGroups r)"
  let ?names = "map goFileName [0..<?n]"
  from assms(1-5) obtain w3 where
    w3: "wdeny w3 = wdeny w" "rmdeny w3 = rmdeny w"
      "\<forall>i<?n. files w3 (goFileName i) = Some (mainContent x i (ImportGroups r ! i))"
    and rc: "runCook x rp tags w =
       (if \<not> goCommand x (buildArgs tags) (files w3) then (w3, Some BuildError)
        else (case cleanup w3 ?names [] of (w4, cleanupErrs) \<Rightarrow> (w4, errorsJoin cleanupErrs)))"
    by (rule runCook_staged)
  show ?thesis
  proof (cases "goCommand x (buildArgs tags) (files w3)")
    case False
    with rc assms(6) have "err = Some BuildError" "w' = w3" by simp_all
    with False w3(3) show ?thesis by (intro exI [of _ "files w3"]) simp
  next
    case True
    obtain w4 errs where c: "cleanup w3 ?names [] = (w4, errs)" by (cases "cleanup w3 ?names []")
    have d: "distinct ?names" by (auto simp: distinct_map intro!: inj_onI dest: goFileName_inj)
    have ex: "\<forall>f\<in>set ?names. files w3 f \<noteq> None" using w3(3) by auto
    note cr = cleanup_result [OF c d ex]
    from True rc assms(6) c have res: "w' = w4" "err = errorsJoin errs" by simp_all
    have e: "err = errorsJoin (map (\<lambda>i. if rmdeny w (goFileName i) then Some (RemoveError (goFileName i)) else None)
                                    [0..<?n])"
      using cr res(2) by (simp add: w3(2) comp_def)
    have f: "\<forall>i<?n. files w' (goFileName i) = (if rmdeny w (goFileName i) then files w3 (goFileName i) else None)"
      using cr res(1) by (simp add: w3(2))
    from True w3(3) e f show ?thesis by (intro exI [of _ "files w3"]) simp
  qed
qed

text \<open>
  C10. When Cook returns nil, go.mod and go.sum hold the texts of the recipe, every
  generated file is gone, and every other name of the directory is as it was before.
\<close>

theorem cook_keeps_module_files:
  assumes "runCook x rp tags w = (w', None)"
  shows "\<exists>js r. files w rp = Some js \<and> jsonUnmarshal x js = Some r \<and>
           files w' ''go.mod'' = Some (GoMod r) \<and> files w' ''go.sum'' = Some (GoSum r) \<and>
           (\<forall>i<length (ImportGroups r). files w' (goFileName i) = None) \<and>
           (\<forall>p. p \<noteq> ''go.mod'' \<and> p \<noteq> ''go.sum'' \<and> p \<notin> goFileName ` {0..<length (ImportGroups r)} \<longrightarrow>
                files w' p = files w p)"
proof -
  from assms obtain js where js: "files w rp = Some js"
    by (auto simp: runCook_def osReadFile_def split: option.splits)
  with assms obtain r where r: "jsonUnmarshal x js = Some r"
    by (auto simp: runCook_def osReadFile_def split: option.splits)
  let ?n = "length (ImportGroups r)"
  let ?names = "map goFileName [0..<?n]"
  let ?w2 = "w\<lparr>files := (files w)(''go.mod'' \<mapsto> GoMod r, ''go.sum'' \<mapsto> GoSum r)\<rparr>"
  from assms js r obtain w3 goFiles errs where
    wg: "writeGroups x 0 (ImportGroups r) [] ?w2 = (w3, goFiles, None)" and
    c: "cleanup w3 goFiles [] = (w', errs)" and j: "errorsJoin errs = None"
    by (auto simp: runCook_def osReadFile_def osWriteFile_def
             split: if_splits prod.splits option.splits)
  note n = writeGroups_None [OF wg]
  from n have names: "goFiles = ?names" by simp
  have d: "distinct ?names" by (auto simp: distinct_map intro!: inj_onI dest: goFileName_inj)
  have ex: "\<forall>f\<in>set ?names. files w3 f \<noteq> None" using n by auto
  note cr = cleanup_result [OF c [unfolded names] d ex]
  from j cr have nodeny: "\<forall>f\<in>set ?names. \<not> rmdeny w3 f"
    by (auto simp: errorsJoin_None split: if_splits)
  have gone: "\<forall>i<?n. files w' (goFileName i) = None"
    using cr nodeny by simp
  have other: "files w' p = ((files w)(''go.mod'' \<mapsto> GoMod r, ''go.sum'' \<mapsto> GoSum r)) p"
    if "p \<notin> goFileName ` {0..<?n}" for p
    using cr n that by simp
  have notin: "''go.mod'' \<notin> goFileName ` {0..<?n}" "''go.sum'' \<notin> goFileName ` {0..<?n}"
    using goFileName_not_mod by (metis imageE)+
  have "files w' ''go.mod'' = Some (GoMod r)" "files w' ''go.sum'' = Some (GoSum r)"
    using other [OF notin(1)] other [OF notin(2)] by simp_all
  with js r gone other show ?thesis by auto
qed

lemmas go_defs = goSucceeds_def goFails_def goNeedsMain_def noDeny_def denyMain1_def

lemmas example_defs =
  exampleTree_def reorderedTree_def brokenTree_def fileA_def fileB_def fileC_def fileU_def
  exampleGroups_def exampleRecipe_def emptyRecipe_def prepWorld_def cookWorld_def testExtern_def

lemmas prepare_defs =
  prepareRecipe_def osReadFile_def plainModfile_def newImportsBuilder_def hidden_def pathJoin_def
  suffix_def addFile_def extractBuildConstraints_def buildPrefix_def trimPrefix_def
  plainUnquote_def importGroups_def sortFunc_def groupCmp_def mkGroup_def

lemma exampleVisited:
  "visited ''.'' exampleTree =
     [(''a.go'', Some fileA), (''b_linux.go'', Some fileB), (''c_windows.go'', Some fileC),
      (''internal/util/util.go'', Some fileU)]"
  by (simp add: exampleTree_def hidden_def pathJoin_def suffix_def)

lemma reorderedVisited:
  "visited ''.'' reorderedTree =
     [(''internal/util/util.go'', Some (fileU\<lparr>Comments := []\<rparr>)), (''c_windows.go'', Some fileC),
      (''b_linux.go'', Some fileB), (''a.go'', Some (fileA\<lparr>Comments := [[''// edited'']]\<rparr>))]"
  by (simp add: reorderedTree_def hidden_def pathJoin_def suffix_def)

lemma examplePrepare:
  "prepareRecipe (testExtern r go) (prepWorld s) exampleTree =
     Inr \<lparr>ImportGroups = exampleGroups, GoMod = ''module example.com/app'', GoSum = s\<rparr>"
  by (simp add: example_defs prepare_defs)

lemma reorderedPrepare:
  "prepareRecipe (testExtern r go) (prepWorld s) reorderedTree =
     Inr \<lparr>ImportGroups = exampleGroups, GoMod = ''module example.com/app'', GoSum = s\<rparr>"
  by (simp add: example_defs prepare_defs)

lemma goFileName_examples:
  "goFileName 0 = ''main.go''" "goFileName 1 = ''main1.go''" "goFileName 2 = ''main2.go''"
  "goFileName (Suc 0) = ''main1.go''" "goFileName (Suc (Suc 0)) = ''main2.go''"
  by code_simp+

lemma exampleRunPrepare:
  "runPrepare (testExtern r go) out (prepWorld s) exampleTree =
     ((prepWorld s)\<lparr>files := (files (prepWorld s))(out \<mapsto> plainMarshal
        \<lparr>ImportGroups = exampleGroups, GoMod = ''module example.com/app'', GoSum = s\<rparr>)\<rparr>, None)"
proof -
  have "wdeny (prepWorld s) out = False" "jsonMarshal (testExtern r go) = plainMarshal"
    by (simp_all add: prepWorld_def testExtern_def)
  then show ?thesis by (simp add: runPrepare_def examplePrepare osWriteFile_def)
qed

lemma reorderedRunPrepare:
  "runPrepare (testExtern r go) out (prepWorld s) reorderedTree =
     ((prepWorld s)\<lparr>files := (files (prepWorld s))(out \<mapsto> plainMarshal
        \<lparr>ImportGroups = exampleGroups, GoMod = ''module example.com/app'', GoSum = s\<rparr>)\<rparr>, None)"
proof -
  have "wdeny (prepWorld s) out = False" "jsonMarshal (testExtern r go) = plainMarshal"
    by (simp_all add: prepWorld_def testExtern_def)
  then show ?thesis by (simp add: runPrepare_def reorderedPrepare osWriteFile_def)
qed

lemma plainMarshal_sum_inj:
  "plainMarshal \<lparr>ImportGroups = gs, GoMod = m, GoSum = s\<rparr> =
   plainMarshal \<lparr>ImportGroups = gs, GoMod = m, GoSum = t\<rparr> \<Longrightarrow> s = t"
  by (simp add: plainMarshal_def plainQuote_def)

text \<open>
  Two runs on the example project that differ in the text of go.sum only: the go.mod
  texts (hence the module paths) and the trees are the same, the recipe files differ.
\<close>

theorem recipe_depends_on_go_sum:
  "files (prepWorld ''golang.org/x/sys v0.1.0 h1:abc='') ''go.mod'' =
     files (prepWorld ''golang.org/x/sys v0.2.0 h1:def='') ''go.mod'' \<and>
   files (fst (runPrepare (testExtern emptyRecipe goSucceeds) ''recipe.json''
            (prepWorld ''golang.org/x/sys v0.1.0 h1:abc='') exampleTree)) ''recipe.json'' \<noteq>
   files (fst (runPrepare (testExtern emptyRecipe goSucceeds) ''recipe.json''
            (prepWorld ''golang.org/x/sys v0.2.0 h1:def='') exampleTree)) ''recipe.json''"
proof -
  have "''golang.org/x/sys v0.1.0 h1:abc='' \<noteq> ''golang.org/x/sys v0.2.0 h1:def=''" by simp
  then have "plainMarshal \<lparr>ImportGroups = exampleGroups, GoMod = ''module example.com/app'',
                 GoSum = ''golang.org/x/sys v0.1.0 h1:abc=''\<rparr> \<noteq>
             plainMarshal \<lparr>ImportGroups = exampleGroups, GoMod = ''module example.com/app'',
                 GoSum = ''golang.org/x/sys v0.2.0 h1:def=''\<rparr>"
    using plainMarshal_sum_inj by blast
  moreover have "files (prepWorld s) ''go.mod'' = Some ''module example.com/app''" for s
    by (simp add: prepWorld_def)
  ultimately show ?thesis by (simp add: exampleRunPrepare)
qed

section \<open>The properties on the example project\<close>

lemma exampleStaged:
  assumes "\<not> wdeny w ''main.go''" "\<not> wdeny w ''main1.go''" "\<not> wdeny w ''main2.go''"
  shows "writeGroups x 0 exampleGroups [] w =
     (w\<lparr>files := (files w)(''main.go'' \<mapsto> mainContent x 0 (exampleGroups ! 0),
                              ''main1.go'' \<mapsto> mainContent x (Suc 0) (exampleGroups ! 1),
                              ''main2.go'' \<mapsto> mainContent x (Suc (Suc 0)) (exampleGroups ! 2))\<rparr>,
      [''main.go'', ''main1.go'', ''main2.go''], None)"
  using assms
  by (simp add: exampleGroups_def osWriteFile_def goFileName_examples Let_def)

lemma cookWorld_simps:
  "files (cookWorld r deny) = [''recipe.json'' \<mapsto> plainMarshal r]"
  "wdeny (cookWorld r deny) = (\<lambda>p. False)"
  "rmdeny (cookWorld r deny) = deny"
  by (simp_all add: cookWorld_def)

lemma testExtern_simps:
  "jsonUnmarshal (testExtern r go) (plainMarshal r) = Some r"
  "goCommand (testExtern r go) = go"
  by (simp_all add: testExtern_def)

lemma exampleRecipe_simps:
  "ImportGroups exampleRecipe = exampleGroups"
  "GoMod exampleRecipe = ''module example.com/app''"
  "GoSum exampleRecipe = ''golang.org/x/sys v0.1.0 h1:abc=''"
  by (simp_all add: exampleRecipe_def)

lemma exampleCook_build_fails:
  "runCook (testExtern exampleRecipe goFails) ''recipe.json'' tags (cookWorld exampleRecipe deny) =
     ((cookWorld exampleRecipe deny)\<lparr>files :=
         [''recipe.json'' \<mapsto> plainMarshal exampleRecipe,
          ''go.mod'' \<mapsto> ''module example.com/app'',
          ''go.sum'' \<mapsto> ''golang.org/x/sys v0.1.0 h1:abc='',
          ''main.go'' \<mapsto> mainContent (testExtern exampleRecipe goFails) 0 (exampleGroups ! 0),
          ''main1.go'' \<mapsto> mainContent (testExtern exampleRecipe goFails) (Suc 0) (exampleGroups ! 1),
          ''main2.go'' \<mapsto> mainContent (testExtern exampleRecipe goFails) (Suc (Suc 0)) (exampleGroups ! 2)]\<rparr>,
      Some BuildError)"
  by (simp add: runCook_def osReadFile_def osWriteFile_def cookWorld_simps go_defs testExtern_simps
      exampleRecipe_simps exampleStaged)

text \<open>
  Cook on the example recipe with a failing build: the build error is returned and the
  three generated files are still in the directory.
\<close>

theorem cleanup_skipped_on_build_failure:
  "snd (runCook (testExtern exampleRecipe goFails) ''recipe.json'' []
          (cookWorld exampleRecipe noDeny)) = Some BuildError \<and>
   files (fst (runCook (testExtern exampleRecipe goFails) ''recipe.json'' []
          (cookWorld exampleRecipe noDeny))) ''main.go'' \<noteq> None \<and>
   files (fst (runCook (testExtern exampleRecipe goFails) ''recipe.json'' []
          (cookWorld exampleRecipe noDeny))) ''main1.go'' \<noteq> None \<and>
   files (fst (runCook (testExtern exampleRecipe goFails) ''recipe.json'' []
          (cookWorld exampleRecipe noDeny))) ''main2.go'' \<noteq> None"
  by (simp add: exampleCook_build_fails)


lemma upt_3: "[0..<3] = [0, Suc 0, Suc (Suc 0)]"
  by code_simp

lemma exampleGroups_length: "length exampleGroups = 3"
  by (simp add: exampleGroups_def)

text \<open>
  Cook on the example recipe with a successful build, where \<open>main1.go\<close> cannot be
  removed: the other two files are removed and the joined error names \<open>main1.go\<close>.
\<close>

theorem cook_cleanup_after_build_witness:
  "snd (runCook (testExtern exampleRecipe goSucceeds) ''recipe.json'' []
          (cookWorld exampleRecipe denyMain1)) = Some (Joined [RemoveError ''main1.go'']) \<and>
   files (fst (runCook (testExtern exampleRecipe goSucceeds) ''recipe.json'' []
          (cookWorld exampleRecipe denyMain1))) ''main.go'' = None \<and>
   files (fst (runCook (testExtern exampleRecipe goSucceeds) ''recipe.json'' []
          (cookWorld exampleRecipe denyMain1))) ''main2.go'' = None"
proof -
  let ?x = "testExtern exampleRecipe goSucceeds"
  let ?w = "cookWorld exampleRecipe denyMain1"
  obtain w' err where rc: "runCook ?x ''recipe.json'' [] ?w = (w', err)"
    by (cases "runCook ?x ''recipe.json'' [] ?w")
  have h1: "files ?w ''recipe.json'' = Some (plainMarshal exampleRecipe)"
    by (simp add: cookWorld_simps go_defs)
  have h2: "jsonUnmarshal ?x (plainMarshal exampleRecipe) = Some exampleRecipe"
    by (simp add: testExtern_simps)
  have h3: "\<not> wdeny ?w ''go.mod''" and h4: "\<not> wdeny ?w ''go.sum''"
    and h5: "\<forall>i<length (ImportGroups exampleRecipe). \<not> wdeny ?w (goFileName i)"
    by (simp_all add: cookWorld_simps go_defs)
  from cook_cleanup_after_build [OF h1 h2 h3 h4 h5 rc] obtain staged where
    st: "if goCommand ?x (buildArgs []) staged
         then err = errorsJoin (map (\<lambda>i. if rmdeny ?w (goFileName i) then Some (RemoveError (goFileName i)) else None)
                                    [0..<length (ImportGroups exampleRecipe)]) \<and>
              (\<forall>i<length (ImportGroups exampleRecipe).
                 files w' (goFileName i) = (if rmdeny ?w (goFileName i) then staged (goFileName i) else None))
         else err = Some BuildError \<and> files w' = staged"
    by blast
  have go: "goCommand ?x (buildArgs []) staged" by (simp add: testExtern_simps go_defs)
  from st go have
    e: "err = errorsJoin (map (\<lambda>i. if rmdeny ?w (goFileName i) then Some (RemoveError (goFileName i)) else None)
                                    [0..<length (ImportGroups exampleRecipe)])" and
    f: "\<forall>i<length (ImportGroups exampleRecipe).
          files w' (goFileName i) = (if rmdeny ?w (goFileName i) then staged (goFileName i) else None)"
    by simp_all
  have "err = Some (Joined [RemoveError ''main1.go''])"
    unfolding e exampleRecipe_simps exampleGroups_length upt_3
    by (simp add: cookWorld_simps go_defs goFileName_examples errorsJoin_def List.map_filter_simps)
  moreover from f have "files w' (goFileName 0) = None" "files w' (goFileName 2) = None"
    using spec [OF f, of 0] spec [OF f, of 2]
    by (simp_all add: exampleRecipe_simps exampleGroups_length cookWorld_simps go_defs goFileName_examples)
  ultimately show ?thesis using rc by (simp add: goFileName_examples)
qed


lemma exampleCook_ok:
  "runCook (testExtern exampleRecipe goSucceeds) ''recipe.json'' tags
     (cookWorld exampleRecipe noDeny) =
     ((cookWorld exampleRecipe noDeny)\<lparr>files :=
         [''recipe.json'' \<mapsto> plainMarshal exampleRecipe,
          ''go.mod'' \<mapsto> ''module example.com/app'',
          ''go.sum'' \<mapsto> ''golang.org/x/sys v0.1.0 h1:abc='']\<rparr>,
      None)"
  by (simp add: runCook_def osReadFile_def osWriteFile_def osRemove_def cookWorld_simps go_defs
      testExtern_simps exampleRecipe_simps exampleStaged errorsJoin_def List.map_filter_simps
      fun_upd_twist)

text \<open>Cook on the example recipe, returning nil: go.mod and go.sum stay.\<close>

theorem cook_keeps_module_files_witness:
  "snd (runCook (testExtern exampleRecipe goSucceeds) ''recipe.json'' []
          (cookWorld exampleRecipe noDeny)) = None \<and>
   files (fst (runCook (testExtern exampleRecipe goSucceeds) ''recipe.json'' []
          (cookWorld exampleRecipe noDeny))) ''go.mod'' = Some ''module example.com/app'' \<and>
   files (fst (runCook (testExtern exampleRecipe goSucceeds) ''recipe.json'' []
          (cookWorld exampleRecipe noDeny))) ''go.sum'' = Some ''golang.org/x/sys v0.1.0 h1:abc=''"
proof -
  let ?x = "testExtern exampleRecipe goSucceeds"
  let ?w = "cookWorld exampleRecipe noDeny"
  obtain w' where rc: "runCook ?x ''recipe.json'' [] ?w = (w', None)"
    by (simp add: exampleCook_ok)
  from cook_keeps_module_files [OF rc] obtain js r where
    *: "files ?w ''recipe.json'' = Some js" "jsonUnmarshal ?x js = Some r"
       "files w' ''go.mod'' = Some (GoMod r)" "files w' ''go.sum'' = Some (GoSum r)"
    by blast
  from *(1) have "js = plainMarshal exampleRecipe" by (simp add: cookWorld_simps go_defs)
  with *(2) have "r = exampleRecipe" by (simp add: testExtern_simps)
  with *(3,4) rc show ?thesis by (simp add: exampleRecipe_simps)
qed

text \<open>The three files of the example recipe.\<close>

theorem one_file_per_group_witness:
  "snd (snd (writeGroups (testExtern exampleRecipe goSucceeds) 0 exampleGroups []
          (cookWorld exampleRecipe noDeny))) = None \<and>
   fst (snd (writeGroups (testExtern exampleRecipe goSucceeds) 0 exampleGroups []
          (cookWorld exampleRecipe noDeny))) = [''main.go'', ''main1.go'', ''main2.go''] \<and>
   prefix ''//go:build '' (mainContent (testExtern exampleRecipe goSucceeds) 1 (exampleGroups ! 1)) \<and>
   \<not> prefix ''//go:build '' (mainContent (testExtern exampleRecipe goSucceeds) 0 (exampleGroups ! 0)) \<and>
   suffix entryPoint (mainContent (testExtern exampleRecipe goSucceeds) 0 (exampleGroups ! 0)) \<and>
   \<not> suffix entryPoint (mainContent (testExtern exampleRecipe goSucceeds) 1 (exampleGroups ! 1))"
proof -
  let ?x = "testExtern exampleRecipe goSucceeds"
  let ?w = "cookWorld exampleRecipe noDeny"
  obtain w' where wg: "writeGroups ?x 0 exampleGroups [] ?w = (w', [''main.go'', ''main1.go'', ''main2.go''], None)"
    by (simp add: exampleStaged cookWorld_simps go_defs)
  from one_file_per_group [OF wg] have
    "\<forall>i<length exampleGroups.
       (prefix ''//go:build '' (mainContent ?x i (exampleGroups ! i)) \<longleftrightarrow> BuildConstraints (exampleGroups ! i) \<noteq> []) \<and>
       (suffix entryPoint (mainContent ?x i (exampleGroups ! i)) \<longleftrightarrow> i = 0)"
    by blast
  from spec [OF this, of 0] spec [OF this, of 1] wg show ?thesis
    by (simp add: exampleGroups_def)
qed

text \<open>
  C3. Cook on a recipe without groups writes go.mod and go.sum, and the loop over the
  groups writes nothing: the directory handed to the build holds the recipe, go.mod and
  go.sum and no source file, hence no entry point, and a build that needs a source file
  fails with the build error.
\<close>

theorem empty_recipe_no_program:
  "snd (runCook (testExtern emptyRecipe goNeedsMain) ''recipe.json'' []
          (cookWorld emptyRecipe noDeny)) = Some BuildError \<and>
   files (fst (runCook (testExtern emptyRecipe goNeedsMain) ''recipe.json'' []
          (cookWorld emptyRecipe noDeny))) =
     [''recipe.json'' \<mapsto> plainMarshal emptyRecipe, ''go.mod'' \<mapsto> ''module example.com/app'',
      ''go.sum'' \<mapsto> []] \<and>
   writeGroups (testExtern emptyRecipe goNeedsMain) 0 (ImportGroups emptyRecipe) []
     (cookWorld emptyRecipe noDeny) = (cookWorld emptyRecipe noDeny, [], None)"
  by (simp add: runCook_def osReadFile_def osWriteFile_def cookWorld_simps go_defs testExtern_simps
      emptyRecipe_def)

text \<open>The example project: \<open>golang.org/x/sys/unix\<close> is kept, the import from the module
  itself is dropped.\<close>

theorem self_import_exclusion_witness:
  "prepareRecipe (testExtern emptyRecipe goSucceeds) (prepWorld []) exampleTree =
     Inr \<lparr>ImportGroups = exampleGroups, GoMod = ''module example.com/app'', GoSum = []\<rparr> \<and>
   ''golang.org/x/sys/unix'' \<in> set (Packages (exampleGroups ! 1)) \<and>
   ''example.com/app/internal/util'' \<notin> set (Packages (exampleGroups ! 0)) \<and>
   \<not> prefix (''example.com/app'' @ ''/'') ''example.com/app''"
proof -
  let ?x = "testExtern emptyRecipe goSucceeds"
  have h2: "files (prepWorld []) ''go.mod'' = Some ''module example.com/app''"
    by (simp add: prepWorld_def)
  have h3: "modfileParse ?x ''module example.com/app'' = Some (ModFile (Some ''example.com/app''))"
    by (simp add: testExtern_def plainModfile_def)
  note t = self_import_exclusion [OF examplePrepare h2 h3]
  from t [of "[]" "''example.com/app/internal/util''"] t [of "''linux''" "''golang.org/x/sys/unix''"]
  show ?thesis
    by (simp add: examplePrepare exampleGroups_def)
qed

text \<open>The groups of the example project are in order.\<close>

theorem recipe_sorted_grouped_witness:
  "sorted_wrt (<) (map BuildConstraints exampleGroups) \<and>
   sorted_wrt (<) (Packages (exampleGroups ! 0))"
proof -
  let ?x = "testExtern emptyRecipe goSucceeds"
  from recipe_sorted_grouped [OF examplePrepare [of emptyRecipe goSucceeds "[]"]]
  have "sorted_wrt (<) (map BuildConstraints exampleGroups)"
    and "\<forall>g\<in>set exampleGroups. sorted_wrt (<) (Packages g)"
    by simp_all
  moreover have "exampleGroups ! 0 \<in> set exampleGroups" by (simp add: exampleGroups_def)
  ultimately show ?thesis by blast
qed

text \<open>The file constrained to \<open>windows\<close> imports only from the module: its group is
  there and is empty.\<close>

theorem empty_group_registered_witness:
  "''windows'' \<in> BuildConstraints ` set exampleGroups \<and>
   (''c_windows.go'', Some fileC) \<in> set (visited ''.'' exampleTree) \<and>
   Packages (exampleGroups ! 2) = []"
proof -
  let ?x = "testExtern emptyRecipe goSucceeds"
  have h2: "files (prepWorld []) ''go.mod'' = Some ''module example.com/app''"
    by (simp add: prepWorld_def)
  have h3: "modfileParse ?x ''module example.com/app'' = Some (ModFile (Some ''example.com/app''))"
    by (simp add: testExtern_def plainModfile_def)
  have v: "(''c_windows.go'', Some fileC) \<in> set (visited ''.'' exampleTree)"
    by (simp add: exampleVisited)
  have c: "Imports fileC \<noteq> []" "extractBuildConstraints fileC = ''windows''"
    by (simp_all add: fileC_def extractBuildConstraints_def buildPrefix_def trimPrefix_def)
  from empty_group_registered [OF examplePrepare h2 h3, of "''windows''"] v c
  have "''windows'' \<in> BuildConstraints ` set exampleGroups" by auto
  moreover have "Packages (exampleGroups ! 2) = []" by (simp add: exampleGroups_def)
  ultimately show ?thesis using v by simp
qed

text \<open>A tree with a file that does not parse: the directory is unchanged.\<close>

theorem parse_error_no_recipe_witness:
  "(''cmd/bad.go'', None) \<in> set (visited ''.'' brokenTree) \<and>
   fst (runPrepare (testExtern emptyRecipe goSucceeds) ''recipe.json'' (prepWorld []) brokenTree)
     = prepWorld [] \<and>
   snd (runPrepare (testExtern emptyRecipe goSucceeds) ''recipe.json'' (prepWorld []) brokenTree)
     \<noteq> None"
proof -
  have v: "(''cmd/bad.go'', None) \<in> set (visited ''.'' brokenTree)"
    by (simp add: brokenTree_def hidden_def pathJoin_def suffix_def)
  from parse_error_no_recipe [OF v, of "testExtern emptyRecipe goSucceeds" "''recipe.json''" "prepWorld []"]
  obtain e where "runPrepare (testExtern emptyRecipe goSucceeds) ''recipe.json'' (prepWorld []) brokenTree
     = (prepWorld [], Some e)" by blast
  with v show ?thesis by simp
qed

text \<open>The example project visited in another order, with a comment edited and a file
  added that is not a Go source: the same recipe file.\<close>

theorem recipe_deterministic_witness:
  "files (fst (runPrepare (testExtern emptyRecipe goSucceeds) ''recipe.json'' (prepWorld []) exampleTree))
     ''recipe.json'' =
   files (fst (runPrepare (testExtern emptyRecipe goSucceeds) ''recipe.json'' (prepWorld []) reorderedTree))
     ''recipe.json'' \<and>
   prepareRecipe (testExtern emptyRecipe goSucceeds) (prepWorld []) exampleTree =
   prepareRecipe (testExtern emptyRecipe goSucceeds) (prepWorld []) reorderedTree"
proof -
  let ?x = "testExtern emptyRecipe goSucceeds"
  have e: "extractBuildConstraints (fileA\<lparr>Comments := [[''// edited'']]\<rparr>) = extractBuildConstraints fileA"
    "extractBuildConstraints (fileU\<lparr>Comments := []\<rparr>) = extractBuildConstraints fileU"
    by (simp_all add: fileA_def fileU_def extractBuildConstraints_def buildPrefix_def)
  have t: "fileTuple ?x ` set (visited ''.'' exampleTree) = fileTuple ?x ` set (visited ''.'' reorderedTree)"
    unfolding exampleVisited reorderedVisited
    by (simp add: e insert_commute)
  from recipe_deterministic [OF exampleRunPrepare reorderedRunPrepare refl refl t]
  show ?thesis by (simp add: exampleRunPrepare reorderedRunPrepare)
qed

end
